theory Spec2Isabelle
  imports Complex_Main
begin

section \<open>Characters, strings and Python's string primitives\<close>

text \<open>
  A string here is a list of 8-bit characters, read as the code points below 256. The
  character classes below give Python's answers on all of them; the case functions map
  the ASCII letters. Text that may hold any code point is handled further down with the
  string library as a parameter.
\<close>

definition code :: "char \<Rightarrow> nat" where
  "code c = of_char c"

definition is_digit :: "char \<Rightarrow> bool" where
  "is_digit c \<longleftrightarrow> 48 \<le> code c \<and> code c \<le> 57"

definition is_upper :: "char \<Rightarrow> bool" where
  "is_upper c \<longleftrightarrow> 65 \<le> code c \<and> code c \<le> 90"

definition is_lower :: "char \<Rightarrow> bool" where
  "is_lower c \<longleftrightarrow> 97 \<le> code c \<and> code c \<le> 122"

text \<open>\<open>str.isspace\<close>, \<open>str.strip()\<close>, \<open>str.split()\<close> and the regular expression class
  \<open>\s\<close>: tab, line feed, vertical tab, form feed, carriage return, the four separators
  28 to 31, the space, the next-line control 133 and the no-break space 160.\<close>

definition is_space :: "char \<Rightarrow> bool" where
  "is_space c \<longleftrightarrow>
     (9 \<le> code c \<and> code c \<le> 13) \<or> (28 \<le> code c \<and> code c \<le> 32) \<or> code c = 133 \<or> code c = 160"

text \<open>The whitespace \<open>int(str)\<close> skips around a literal: the C locale's six, and the two
  whitespace characters above 127, which it reads as spaces.\<close>

definition is_int_space :: "char \<Rightarrow> bool" where
  "is_int_space c \<longleftrightarrow>
     (9 \<le> code c \<and> code c \<le> 13) \<or> code c = 32 \<or> code c = 133 \<or> code c = 160"

definition digit_val :: "char \<Rightarrow> nat" where
  "digit_val c = code c - 48"

definition digit_char :: "nat \<Rightarrow> char" where
  "digit_char n = char_of (48 + n)"

fun digits_of :: "nat \<Rightarrow> string" where
  "digits_of n =
     (if n < 10 then [digit_char n] else digits_of (n div 10) @ [digit_char (n mod 10)])"

declare digits_of.simps [simp del]

definition dec_val :: "string \<Rightarrow> nat" where
  "dec_val ds = foldl (\<lambda>a c. 10 * a + digit_val c) 0 ds"

text \<open>\<open>s.split(sep)\<close> with a one-character separator: never empty, \<open>''.split(':') = ['']\<close>.\<close>

fun split_on :: "char \<Rightarrow> string \<Rightarrow> string list" where
  "split_on sep [] = [[]]"
| "split_on sep (c # cs) =
     (if c = sep then [] # split_on sep cs
      else (case split_on sep cs of p # ps \<Rightarrow> (c # p) # ps | [] \<Rightarrow> [[c]]))"

text \<open>\<open>sep.join(parts)\<close>.\<close>

fun py_join :: "'a list \<Rightarrow> 'a list list \<Rightarrow> 'a list" where
  "py_join sep [] = []"
| "py_join sep [x] = x"
| "py_join sep (x # y # r) = x @ sep @ py_join sep (y # r)"

definition strip_with :: "(char \<Rightarrow> bool) \<Rightarrow> string \<Rightarrow> string" where
  "strip_with p s = rev (dropWhile p (rev (dropWhile p s)))"

definition py_strip :: "string \<Rightarrow> string" where
  "py_strip s = strip_with is_space s"

text \<open>
  \<open>int(s)\<close> on a string: surrounding whitespace is skipped, one sign is allowed, and the
  rest is decimal digits with single underscores between digits. ValueError is \<open>None\<close>.
\<close>

definition int_body_ok :: "string \<Rightarrow> bool" where
  "int_body_ok b \<longleftrightarrow> list_all (\<lambda>g. g \<noteq> [] \<and> list_all is_digit g) (split_on CHR ''_'' b)"

definition int_body_val :: "string \<Rightarrow> nat" where
  "int_body_val b = dec_val (filter (\<lambda>c. c \<noteq> CHR ''_'') b)"

definition py_int_of_str :: "string \<Rightarrow> int option" where
  "py_int_of_str s =
     (case strip_with is_int_space s of
        [] \<Rightarrow> None
      | c # r \<Rightarrow>
          if c = CHR ''-'' then (if int_body_ok r then Some (- int (int_body_val r)) else None)
          else if c = CHR ''+'' then (if int_body_ok r then Some (int (int_body_val r)) else None)
          else (if int_body_ok (c # r) then Some (int (int_body_val (c # r))) else None))"

text \<open>\<open>int(x)\<close> on a float truncates towards zero.\<close>

definition py_int_of_float :: "real \<Rightarrow> int" where
  "py_int_of_float x = (if 0 \<le> x then \<lfloor>x\<rfloor> else \<lceil>x\<rceil>)"

text \<open>The format specification \<open>{n:02d}\<close>: sign-aware zero padding to width two.\<close>

definition fmt02d :: "int \<Rightarrow> string" where
  "fmt02d n =
     (if n < 0 then CHR ''-'' # digits_of (nat (- n))
      else (let d = digits_of (nat n) in if length d < 2 then CHR ''0'' # d else d))"

section \<open>Timestamps (\<open>app/services/chapter_service.py\<close>)\<close>

definition parse_timestamp :: "string \<Rightarrow> int option" where
  "parse_timestamp timestamp_str =
     (let parts = split_on CHR '':'' timestamp_str in
      if length parts = 2 then
        (case (py_int_of_str (parts ! 0), py_int_of_str (parts ! 1)) of
           (Some minutes, Some seconds) \<Rightarrow> Some (minutes * 60 + seconds)
         | _ \<Rightarrow> None)
      else if length parts = 3 then
        (case (py_int_of_str (parts ! 0), py_int_of_str (parts ! 1), py_int_of_str (parts ! 2)) of
           (Some hours, Some minutes, Some seconds) \<Rightarrow>
              Some (hours * 3600 + minutes * 60 + seconds)
         | _ \<Rightarrow> None)
      else None)"

definition format_timestamp :: "int \<Rightarrow> string" where
  "format_timestamp seconds =
     (let hours = seconds div 3600;
          minutes = (seconds mod 3600) div 60;
          secs = seconds mod 60
      in if hours > 0 then fmt02d hours @ '':'' @ fmt02d minutes @ '':'' @ fmt02d secs
         else fmt02d minutes @ '':'' @ fmt02d secs)"

text \<open>
  The strings \<open>format_timestamp\<close> writes, described by their shape: two digits, a colon
  and two digits, both below sixty; or an hour field of at least two digits that is not
  zero and has no padding beyond two digits, followed by two such fields.
\<close>

definition two_digit_field :: "string \<Rightarrow> bool" where
  "two_digit_field f \<longleftrightarrow> length f = 2 \<and> list_all is_digit f \<and> dec_val f < 60"

definition hour_field :: "string \<Rightarrow> bool" where
  "hour_field f \<longleftrightarrow>
     2 \<le> length f \<and> list_all is_digit f \<and> 0 < dec_val f \<and>
     (2 < length f \<longrightarrow> hd f \<noteq> CHR ''0'')"

definition canonical_timestamp :: "string \<Rightarrow> bool" where
  "canonical_timestamp s \<longleftrightarrow>
     (case split_on CHR '':'' s of
        [m, sec] \<Rightarrow> two_digit_field m \<and> two_digit_field sec
      | [h, m, sec] \<Rightarrow> hour_field h \<and> two_digit_field m \<and> two_digit_field sec
      | _ \<Rightarrow> False)"


section \<open>Chapters from provider metadata (\<open>ChapterService._extract_chapters_from_metadata\<close>)\<close>

datatype py_error = ValueError | TypeError | IndexError | AttributeError | ProviderError

text \<open>
  One record of the provider's \<open>chapters\<close> list, a dictionary read with \<open>.get\<close>: a field is
  \<open>None\<close> when the key is absent (for \<open>end_time\<close> also when its value is null, which
  the truth test treats alike). Times are the provider's numbers.
\<close>

record raw_chapter =
  rc_title :: "string option"
  rc_start_time :: "real option"
  rc_end_time :: "real option"

text \<open>\<open>ChapterData\<close> of \<open>app/models/transcript.py\<close>. Its two texts are strings over any
  character type: the characters of a title are only passed on.\<close>

record 'c ChapterData =
  title :: "'c list"
  start_time :: int
  end_time :: "int option"
  timestamp :: "'c list"

text \<open>The part of the provider's \<open>info\<close> dictionary the chapter service reads.\<close>

record video_info =
  info_chapters :: "raw_chapter list option"
  info_description :: "string option"

text \<open>\<open>int(chapter.get('start_time', 0))\<close>.\<close>

definition start_of :: "raw_chapter \<Rightarrow> int" where
  "start_of chapter = py_int_of_float (case rc_start_time chapter of None \<Rightarrow> 0 | Some x \<Rightarrow> x)"

text \<open>\<open>int(chapter.get('end_time', 0)) if chapter.get('end_time') else None\<close>: a number is
  true when it is not zero.\<close>

definition end_of :: "raw_chapter \<Rightarrow> int option" where
  "end_of chapter =
     (case rc_end_time chapter of
        None \<Rightarrow> None
      | Some e \<Rightarrow> if e \<noteq> 0 then Some (py_int_of_float e) else None)"

text \<open>The \<open>ChapterData(...)\<close> built for the record at index \<open>i\<close>.\<close>

definition new_chapter :: "nat \<Rightarrow> raw_chapter \<Rightarrow> char ChapterData" where
  "new_chapter i chapter =
     \<lparr>title = (case rc_title chapter of None \<Rightarrow> ''Chapter '' @ digits_of (i + 1) | Some t \<Rightarrow> t),
      start_time = start_of chapter,
      end_time = end_of chapter,
      timestamp = format_timestamp (start_of chapter)\<rparr>"

text \<open>\<open>chapters[-1].end_time = t\<close> on a non-empty list.\<close>

definition set_last_end :: "int \<Rightarrow> 'c ChapterData list \<Rightarrow> 'c ChapterData list" where
  "set_last_end t chapters = butlast chapters @ [(last chapters)\<lparr>end_time := Some t\<rparr>]"

text \<open>The loop over \<open>enumerate(chapters_data)\<close>, with the list built so far; reading
  \<open>chapters[-1]\<close> of an empty list is IndexError.\<close>

fun metadata_loop ::
  "nat \<Rightarrow> raw_chapter list \<Rightarrow> char ChapterData list \<Rightarrow> py_error + char ChapterData list" where
  "metadata_loop i [] chapters = Inr chapters"
| "metadata_loop i (chapter # rest) chapters =
     (if i > 0 \<and> chapters = [] then Inl IndexError
      else
        let chapters' =
              (if i > 0 \<and> end_time (last chapters) = None
               then set_last_end (start_of chapter) chapters else chapters)
        in metadata_loop (i + 1) rest (chapters' @ [new_chapter i chapter]))"

text \<open>
  The provider call either raises or returns the \<open>info\<close> dictionary; every exception
  inside the method is caught and answered with the empty list.
\<close>

definition extract_chapters_from_metadata :: "py_error + video_info \<Rightarrow> char ChapterData list" where
  "extract_chapters_from_metadata provider =
     (case provider of
        Inl e \<Rightarrow> []
      | Inr info \<Rightarrow>
          (case metadata_loop 0 (case info_chapters info of None \<Rightarrow> [] | Some cd \<Rightarrow> cd) [] of
             Inl e \<Rightarrow> []
           | Inr chapters \<Rightarrow> chapters))"

text \<open>What the loop leaves behind a last element \<open>a\<close> when the records \<open>rest\<close> follow it.\<close>

fun backfill :: "char ChapterData \<Rightarrow> nat \<Rightarrow> raw_chapter list \<Rightarrow> char ChapterData list" where
  "backfill a i [] = [a]"
| "backfill a i (chapter # rest) =
     (if end_time a = None then a\<lparr>end_time := Some (start_of chapter)\<rparr> else a)
       # backfill (new_chapter i chapter) (i + 1) rest"

text \<open>The element at position \<open>k\<close> of that list, before its end is filled in.\<close>

definition loop_item ::
  "char ChapterData \<Rightarrow> nat \<Rightarrow> raw_chapter list \<Rightarrow> nat \<Rightarrow> char ChapterData" where
  "loop_item a i rest k = (if k = 0 then a else new_chapter (i + k - 1) (rest ! (k - 1)))"

text \<open>Two provider records that the loop reads alike.\<close>

definition same_reading :: "raw_chapter \<Rightarrow> raw_chapter \<Rightarrow> bool" where
  "same_reading a b \<longleftrightarrow>
     rc_title a = rc_title b \<and> start_of a = start_of b \<and> end_of a = end_of b"

text \<open>The provider response with chapters \<open>raw\<close>.\<close>

definition with_chapters :: "raw_chapter list \<Rightarrow> py_error + video_info" where
  "with_chapters raw = Inr \<lparr>info_chapters = Some raw, info_description = None\<rparr>"

text \<open>The metadata chapters of the specification's example: A at 0, B at 30, C from 90
  to 120.\<close>

definition example_chapters :: "raw_chapter list" where
  "example_chapters =
     [\<lparr>rc_title = Some ''A'', rc_start_time = Some 0, rc_end_time = None\<rparr>,
      \<lparr>rc_title = Some ''B'', rc_start_time = Some 30, rc_end_time = None\<rparr>,
      \<lparr>rc_title = Some ''C'', rc_start_time = Some 90, rc_end_time = Some 120\<rparr>]"


section \<open>Regular expressions as the \<open>re\<close> module matches them\<close>

text \<open>
  The patterns of the program use literals, character classes, counted, greedy and lazy
  repetition of a class, optional groups, alternation, one capture level, positive
  lookahead, a one-character lookbehind and the anchors. A pattern is a value of
  \<open>regex\<close>; matching enumerates the ways a pattern can match at a position in the
  priority order of a backtracking matcher, so the head of the list is the match that
  \<open>re\<close> reports.
\<close>

datatype cls =
    Digit                 \<comment> \<open>\<open>\d\<close>\<close>
  | Space                 \<comment> \<open>\<open>\s\<close>\<close>
  | Dot                   \<comment> \<open>\<open>.\<close>: anything but a line feed\<close>
  | IdChar                \<comment> \<open>\<open>[a-zA-Z0-9_-]\<close>\<close>
  | OneOf string          \<comment> \<open>\<open>[...]\<close> of listed characters\<close>
  | Points "int list"     \<comment> \<open>\<open>[...]\<close> of punctuation listed by code point\<close>

definition is_id_char :: "char \<Rightarrow> bool" where
  "is_id_char c \<longleftrightarrow>
     is_lower c \<or> is_upper c \<or> is_digit c \<or> c = CHR ''_'' \<or> c = CHR ''-''"

fun cls_match :: "cls \<Rightarrow> char \<Rightarrow> bool" where
  "cls_match Digit c = is_digit c"
| "cls_match Space c = is_space c"
| "cls_match Dot c = (c \<noteq> CHR 0x0A)"
| "cls_match IdChar c = is_id_char c"
| "cls_match (OneOf cs) c = (c \<in> set cs)"
| "cls_match (Points ns) c = (of_char c \<in> set ns)"

datatype regex =
    Eps
  | Lit char
  | Cls cls
  | Seq regex regex
  | Alt regex regex
  | Opt regex                        \<comment> \<open>\<open>(?:r)?\<close>, greedy\<close>
  | Rep cls nat "nat option" bool    \<comment> \<open>\<open>c{lo,hi}\<close>; the flag is true for greedy\<close>
  | Grp nat regex                    \<comment> \<open>capture group\<close>
  | Look regex                       \<comment> \<open>\<open>(?=r)\<close>\<close>
  | Behind cls                       \<comment> \<open>\<open>(?<=c)\<close>\<close>
  | Bol                              \<comment> \<open>\<open>^\<close>\<close>
  | Eol                              \<comment> \<open>\<open>$\<close>\<close>

record re_flags =
  ignorecase :: bool
  multiline :: bool

definition to_lower :: "char \<Rightarrow> char" where
  "to_lower c = (if is_upper c then char_of (code c + 32) else c)"

definition to_upper :: "char \<Rightarrow> char" where
  "to_upper c = (if is_lower c then char_of (code c - 32) else c)"

text \<open>A position is the character before it (none at the start), the text after it, and
  the groups captured so far.\<close>

type_synonym re_pos = "char option \<times> string \<times> (nat \<times> string) list"

definition advance :: "nat \<Rightarrow> re_pos \<Rightarrow> re_pos" where
  "advance k p =
     (case p of (prev, rest, caps) \<Rightarrow>
        (if k = 0 then prev else Some (rest ! (k - 1)), drop k rest, caps))"

definition rep_counts :: "cls \<Rightarrow> nat \<Rightarrow> nat option \<Rightarrow> bool \<Rightarrow> string \<Rightarrow> nat list" where
  "rep_counts k lo hi greedy rest =
     (let n = length (takeWhile (cls_match k) rest);
          m = (case hi of None \<Rightarrow> n | Some h \<Rightarrow> min h n);
          up = [lo ..< Suc m]
      in if greedy then rev up else up)"

fun re_at :: "re_flags \<Rightarrow> regex \<Rightarrow> re_pos \<Rightarrow> re_pos list" where
  "re_at fl Eps p = [p]"
| "re_at fl (Lit c) p =
     (case p of (prev, rest, caps) \<Rightarrow>
        (case rest of
           [] \<Rightarrow> []
         | x # xs \<Rightarrow> if x = c then [(Some x, xs, caps)] else []))"
| "re_at fl (Cls k) p =
     (case p of (prev, rest, caps) \<Rightarrow>
        (case rest of
           [] \<Rightarrow> []
         | x # xs \<Rightarrow> if cls_match k x then [(Some x, xs, caps)] else []))"
| "re_at fl (Seq a b) p = concat (map (re_at fl b) (re_at fl a p))"
| "re_at fl (Alt a b) p = re_at fl a p @ re_at fl b p"
| "re_at fl (Opt a) p = re_at fl a p @ [p]"
| "re_at fl (Rep k lo hi greedy) p =
     map (\<lambda>j. advance j p) (rep_counts k lo hi greedy (fst (snd p)))"
| "re_at fl (Grp i a) p =
     map (\<lambda>q. (fst q, fst (snd q),
                 (i, take (length (fst (snd p)) - length (fst (snd q))) (fst (snd p)))
                   # snd (snd q)))
         (re_at fl a p)"
| "re_at fl (Look a) p = (if re_at fl a p = [] then [] else [p])"
| "re_at fl (Behind k) p =
     (case fst p of None \<Rightarrow> [] | Some x \<Rightarrow> if cls_match k x then [p] else [])"
| "re_at fl Bol p =
     (if fst p = None \<or> (multiline fl \<and> fst p = Some (CHR 0x0A)) then [p] else [])"
| "re_at fl Eol p =
     (let rest = fst (snd p) in
      if rest = [] \<or> (multiline fl \<and> hd rest = CHR 0x0A)
         \<or> (\<not> multiline fl \<and> rest = [CHR 0x0A])
      then [p] else [])"

text \<open>
  IGNORECASE is applied to the pattern before matching: a literal letter stands for its two
  cases, and a listed class for both cases of its letters. The other classes are closed
  under case already; a class listed by code points holds punctuation only, which has no
  case.
\<close>

fun fold_cls :: "cls \<Rightarrow> cls" where
  "fold_cls (OneOf cs) = OneOf (cs @ map to_lower cs @ map to_upper cs)"
| "fold_cls k = k"

fun fold_case :: "regex \<Rightarrow> regex" where
  "fold_case (Lit c) =
     (if is_lower c \<or> is_upper c then Cls (OneOf [to_lower c, to_upper c]) else Lit c)"
| "fold_case (Cls k) = Cls (fold_cls k)"
| "fold_case (Seq a b) = Seq (fold_case a) (fold_case b)"
| "fold_case (Alt a b) = Alt (fold_case a) (fold_case b)"
| "fold_case (Opt a) = Opt (fold_case a)"
| "fold_case (Rep k lo hi greedy) = Rep (fold_cls k) lo hi greedy"
| "fold_case (Grp i a) = Grp i (fold_case a)"
| "fold_case (Look a) = Look (fold_case a)"
| "fold_case (Behind k) = Behind (fold_cls k)"
| "fold_case r = r"

definition with_flags :: "re_flags \<Rightarrow> regex \<Rightarrow> regex" where
  "with_flags fl r = (if ignorecase fl then fold_case r else r)"

text \<open>The literal string \<open>s\<close> as a pattern.\<close>

fun lits :: "string \<Rightarrow> regex" where
  "lits [] = Eps"
| "lits (c # cs) = Seq (Lit c) (lits cs)"

text \<open>\<open>re.search\<close>: the first position, from the left, where the pattern matches; the result
  is the captured groups of the match found there.\<close>

fun re_search_from :: "re_flags \<Rightarrow> regex \<Rightarrow> char option \<Rightarrow> string \<Rightarrow> (nat \<times> string) list option" where
  "re_search_from fl r prev [] =
     (case re_at fl r (prev, [], []) of [] \<Rightarrow> None | q # _ \<Rightarrow> Some (snd (snd q)))"
| "re_search_from fl r prev (x # xs) =
     (case re_at fl r (prev, x # xs, []) of
        [] \<Rightarrow> re_search_from fl r (Some x) xs
      | q # _ \<Rightarrow> Some (snd (snd q)))"

definition re_search :: "re_flags \<Rightarrow> regex \<Rightarrow> string \<Rightarrow> (nat \<times> string) list option" where
  "re_search fl r s = re_search_from fl (with_flags fl r) None s"

text \<open>\<open>re.match\<close>: the pattern at the start of the string only.\<close>

definition re_match :: "re_flags \<Rightarrow> regex \<Rightarrow> string \<Rightarrow> (nat \<times> string) list option" where
  "re_match fl r s =
     (case re_at fl (with_flags fl r) (None, s, []) of
        [] \<Rightarrow> None
      | q # _ \<Rightarrow> Some (snd (snd q)))"

text \<open>\<open>match.group(i)\<close> of a group that took part in the match.\<close>

definition group :: "nat \<Rightarrow> (nat \<times> string) list \<Rightarrow> string" where
  "group i caps = (case map_of caps i of None \<Rightarrow> [] | Some g \<Rightarrow> g)"

text \<open>
  The scan behind \<open>re.findall\<close>, \<open>re.sub\<close> and \<open>re.split\<close>: the non-overlapping matches
  from the left, each with the text skipped before it and its groups, and the text left
  after the last match. Every pattern of the program consumes at least one character; a
  match that consumes nothing is passed over here.
\<close>

function re_scan :: "re_flags \<Rightarrow> regex \<Rightarrow> char option \<Rightarrow> string \<Rightarrow> string
                      \<Rightarrow> (string \<times> (nat \<times> string) list) list \<times> string" where
  "re_scan fl r prev rest skipped =
     (case re_at fl r (prev, rest, []) of
        q # _ \<Rightarrow>
          if length (fst (snd q)) < length rest
          then (let (ms, tail) = re_scan fl r (fst q) (fst (snd q)) []
                in ((rev skipped, snd (snd q)) # ms, tail))
          else (case rest of
                  [] \<Rightarrow> ([], rev skipped)
                | x # xs \<Rightarrow> re_scan fl r (Some x) xs (x # skipped))
      | [] \<Rightarrow>
          (case rest of
             [] \<Rightarrow> ([], rev skipped)
           | x # xs \<Rightarrow> re_scan fl r (Some x) xs (x # skipped)))"
  by pat_completeness auto
termination
  by (relation "measure (\<lambda>(fl, r, prev, rest, skipped). length rest)") auto

declare re_scan.simps [simp del]

definition re_findall :: "re_flags \<Rightarrow> regex \<Rightarrow> string \<Rightarrow> (nat \<times> string) list list" where
  "re_findall fl r s = map snd (fst (re_scan fl (with_flags fl r) None s []))"

definition re_sub :: "re_flags \<Rightarrow> regex \<Rightarrow> string \<Rightarrow> string \<Rightarrow> string" where
  "re_sub fl r repl s =
     (case re_scan fl (with_flags fl r) None s [] of
        (ms, tail) \<Rightarrow> concat (map (\<lambda>m. fst m @ repl) ms) @ tail)"

definition re_split :: "re_flags \<Rightarrow> regex \<Rightarrow> string \<Rightarrow> string list" where
  "re_split fl r s =
     (case re_scan fl (with_flags fl r) None s [] of (ms, tail) \<Rightarrow> map fst ms @ [tail])"

definition no_flags :: re_flags where
  "no_flags = \<lparr>ignorecase = False, multiline = False\<rparr>"


section \<open>The identifier extractor (\<open>URLExtractor\<close>)\<close>

text \<open>
  \<open>app/services/url_extractor.py\<close> and \<open>youtube_transcriber.py\<close> hold the same
  extractor: the same seven patterns in the same order, then the same parse of the URL.
\<close>

definition scheme_opt :: regex where
  "scheme_opt = Opt (Seq (lits ''http'') (Seq (Opt (Lit CHR ''s'')) (lits ''://'')))"

definition www_opt :: regex where
  "www_opt = Opt (lits ''www.'')"

definition id_group :: regex where
  "id_group = Grp 1 (Rep IdChar 11 (Some 11) True)"

definition url_patterns :: "regex list" where
  "url_patterns =
     [Seq scheme_opt (Seq www_opt (Seq (lits ''youtube.com/watch?v='') id_group)),
      Seq scheme_opt (Seq (lits ''youtu.be/'') id_group),
      Seq scheme_opt (Seq www_opt (Seq (lits ''youtube.com/embed/'') id_group)),
      Seq scheme_opt (Seq www_opt (Seq (lits ''youtube.com/shorts/'') id_group)),
      Seq scheme_opt (Seq www_opt (Seq (lits ''youtube.com/live/'') id_group)),
      Seq scheme_opt (Seq (lits ''m.youtube.com/watch?v='') id_group),
      Seq Bol (Seq id_group Eol)]"

definition icase :: re_flags where
  "icase = \<lparr>ignorecase = True, multiline = False\<rparr>"

text \<open>\<open>_is_valid_video_id\<close>: \<open>re.match(r'^[a-zA-Z0-9_-]{11}$', video_id)\<close> on a non-empty
  string.\<close>

definition is_valid_video_id :: "string \<Rightarrow> bool" where
  "is_valid_video_id video_id \<longleftrightarrow>
     video_id \<noteq> [] \<and>
     re_match no_flags (Seq Bol (Seq (Rep IdChar 11 (Some 11) True) Eol)) video_id \<noteq> None"

text \<open>\<open>_extract_with_patterns\<close>: the first pattern, in order, that is found in the URL and
  whose group validates.\<close>

fun extract_with_patterns :: "regex list \<Rightarrow> string \<Rightarrow> string option" where
  "extract_with_patterns [] url = None"
| "extract_with_patterns (pattern # patterns) url =
     (case re_search icase pattern url of
        Some m \<Rightarrow>
          if is_valid_video_id (group 1 m) then Some (group 1 m)
          else extract_with_patterns patterns url
      | None \<Rightarrow> extract_with_patterns patterns url)"

text \<open>
  What \<open>urlparse\<close> and \<open>parse_qs\<close> of the standard library give the extractor: the parsed
  URL or an exception, and the dictionary of query values.
\<close>

record parsed_url =
  hostname :: "string option"
  path :: string
  query :: string

record url_lib =
  urlparse :: "string \<Rightarrow> py_error + parsed_url"
  parse_qs :: "string \<Rightarrow> string \<Rightarrow> string list option"

definition starts_with :: "'a list \<Rightarrow> 'a list \<Rightarrow> bool" where
  "starts_with pre s \<longleftrightarrow> take (length pre) s = pre"

text \<open>The text of \<open>s\<close> before the first occurrence of \<open>sep\<close>, all of \<open>s\<close> when there is none:
  \<open>s.split(sep)[0]\<close>.\<close>

fun before_sub :: "string \<Rightarrow> string \<Rightarrow> string" where
  "before_sub sep [] = []"
| "before_sub sep (c # cs) =
     (if sep \<noteq> [] \<and> starts_with sep (c # cs) then [] else c # before_sub sep cs)"

text \<open>\<open>path.split(marker)[1].split('?')[0]\<close> for a path that starts with the marker.\<close>

definition after_marker :: "string \<Rightarrow> string \<Rightarrow> string" where
  "after_marker marker p = before_sub ''?'' (before_sub marker (drop (length marker) p))"

text \<open>\<open>_extract_with_urlparse\<close>; every exception raised inside is caught and answered with
  \<open>None\<close>.\<close>

definition extract_with_urlparse :: "url_lib \<Rightarrow> string \<Rightarrow> string option" where
  "extract_with_urlparse lib url =
     (let url' = (if starts_with ''http://'' url \<or> starts_with ''https://'' url then url
                  else ''https://'' @ url)
      in case urlparse lib url' of
           Inl e \<Rightarrow> None
         | Inr parsed \<Rightarrow>
             if hostname parsed \<in> {Some ''www.youtube.com'', Some ''youtube.com'',
                                    Some ''m.youtube.com''} then
               (if path parsed = ''/watch'' then
                  (case parse_qs lib (query parsed) ''v'' of
                     None \<Rightarrow> None
                   | Some [] \<Rightarrow> None
                   | Some (video_id # _) \<Rightarrow>
                       if video_id \<noteq> [] \<and> is_valid_video_id video_id then Some video_id
                       else None)
                else if starts_with ''/embed/'' (path parsed) then
                  (let video_id = after_marker ''/embed/'' (path parsed)
                   in if is_valid_video_id video_id then Some video_id else None)
                else if starts_with ''/shorts/'' (path parsed) then
                  (let video_id = after_marker ''/shorts/'' (path parsed)
                   in if is_valid_video_id video_id then Some video_id else None)
                else if starts_with ''/live/'' (path parsed) then
                  (let video_id = after_marker ''/live/'' (path parsed)
                   in if is_valid_video_id video_id then Some video_id else None)
                else None)
             else if hostname parsed = Some ''youtu.be'' then
               (let video_id = drop 1 (path parsed)
                in if is_valid_video_id video_id then Some video_id else None)
             else None)"

definition extract_video_id_with :: "url_lib \<Rightarrow> string \<Rightarrow> string option" where
  "extract_video_id_with lib url =
     (if url = [] then None
      else
        let url' = py_strip url in
        case extract_with_patterns url_patterns url' of
          Some video_id \<Rightarrow> Some video_id
        | None \<Rightarrow> extract_with_urlparse lib url')"

subsection \<open>The standard library's URL functions\<close>

text \<open>
  A model of \<open>urllib.parse.urlparse\<close> and \<open>parse_qs\<close> as CPython 3.11 implements them, for
  ASCII text. A bracketed (IPv6) host is outside this model: an authority holding a
  bracket is answered with ValueError, and no statement below evaluates the model on one.
  A percent escape of a byte above 127 is kept as that one character, which is neither the
  letter of a key nor a character of an identifier.
\<close>

definition is_alpha :: "char \<Rightarrow> bool" where
  "is_alpha c \<longleftrightarrow> is_lower c \<or> is_upper c"

definition is_scheme_char :: "char \<Rightarrow> bool" where
  "is_scheme_char c \<longleftrightarrow> is_alpha c \<or> is_digit c \<or> c \<in> set ''+-.''"

definition uses_params :: "string list" where
  "uses_params = ['''', ''ftp'', ''hdl'', ''prospero'', ''http'', ''imap'', ''https'', ''shttp'',
                  ''rtsp'', ''rtsps'', ''rtspu'', ''sip'', ''sips'', ''mms'', ''sftp'', ''tel'']"

definition split_scheme :: "string \<Rightarrow> string \<times> string" where
  "split_scheme url =
     (let s = takeWhile (\<lambda>c. c \<noteq> CHR '':'') url in
      if s \<noteq> [] \<and> length s < length url \<and> is_alpha (hd url) \<and> list_all is_scheme_char s
      then (map to_lower s, drop (Suc (length s)) url)
      else ([], url))"

definition split_params :: "string \<Rightarrow> string" where
  "split_params p =
     (if CHR ''/'' \<in> set p then
        (let j = length p - length (takeWhile (\<lambda>c. c \<noteq> CHR ''/'') (rev p)) - 1
         in take j p @ takeWhile (\<lambda>c. c \<noteq> CHR '';'') (drop j p))
      else takeWhile (\<lambda>c. c \<noteq> CHR '';'') p)"

definition host_of :: "string \<Rightarrow> string option" where
  "host_of netloc =
     (let hostinfo = rev (takeWhile (\<lambda>c. c \<noteq> CHR ''@'') (rev netloc));
          h = takeWhile (\<lambda>c. c \<noteq> CHR '':'') hostinfo
      in if h = [] then None
         else Some (map to_lower (takeWhile (\<lambda>c. c \<noteq> CHR ''%'') h)
                    @ dropWhile (\<lambda>c. c \<noteq> CHR ''%'') h))"

definition py_urlparse :: "string \<Rightarrow> py_error + parsed_url" where
  "py_urlparse url =
     (let u1 = filter (\<lambda>c. code c \<notin> {9, 10, 13}) (dropWhile (\<lambda>c. code c \<le> 32) url);
          (scheme, u2) = split_scheme u1;
          has_netloc = (take 2 u2 = ''//'');
          netloc = (if has_netloc then takeWhile (\<lambda>c. c \<notin> set ''/?#'') (drop 2 u2) else []);
          u3 = (if has_netloc then dropWhile (\<lambda>c. c \<notin> set ''/?#'') (drop 2 u2) else u2);
          u4 = takeWhile (\<lambda>c. c \<noteq> CHR ''#'') u3;
          p = takeWhile (\<lambda>c. c \<noteq> CHR ''?'') u4;
          q = drop 1 (dropWhile (\<lambda>c. c \<noteq> CHR ''?'') u4);
          p' = (if scheme \<in> set uses_params \<and> CHR '';'' \<in> set p then split_params p else p)
      in if CHR ''['' \<in> set netloc \<or> CHR '']'' \<in> set netloc then Inl ValueError
         else Inr \<lparr>hostname = host_of netloc, path = p', query = q\<rparr>)"

definition is_hex :: "char \<Rightarrow> bool" where
  "is_hex c \<longleftrightarrow> is_digit c \<or> c \<in> set ''abcdefABCDEF''"

definition hex_val :: "char \<Rightarrow> nat" where
  "hex_val c = (if is_digit c then code c - 48 else code (to_lower c) - 87)"

fun unquote :: "string \<Rightarrow> string" where
  "unquote (c # a # b # r) =
     (if c = CHR ''%'' \<and> is_hex a \<and> is_hex b then char_of (16 * hex_val a + hex_val b) # unquote r
      else c # unquote (a # b # r))"
| "unquote s = s"

definition unquote_plus :: "string \<Rightarrow> string" where
  "unquote_plus s = unquote (map (\<lambda>c. if c = CHR ''+'' then CHR '' '' else c) s)"

text \<open>\<open>parse_qsl\<close>: the fields between ampersands that have a non-empty value.\<close>

definition parse_qsl :: "string \<Rightarrow> (string \<times> string) list" where
  "parse_qsl qs =
     (if qs = [] then []
      else
        map (\<lambda>nv. (unquote_plus (takeWhile (\<lambda>c. c \<noteq> CHR ''='') nv),
                    unquote_plus (drop 1 (dropWhile (\<lambda>c. c \<noteq> CHR ''='') nv))))
          (filter (\<lambda>nv. nv \<noteq> [] \<and> drop 1 (dropWhile (\<lambda>c. c \<noteq> CHR ''='') nv) \<noteq> [])
             (split_on CHR ''&'' qs)))"

definition py_parse_qs :: "string \<Rightarrow> string \<Rightarrow> string list option" where
  "py_parse_qs qs name =
     (let vs = map snd (filter (\<lambda>nv. fst nv = name) (parse_qsl qs))
      in if vs = [] then None else Some vs)"

definition stdlib :: url_lib where
  "stdlib = \<lparr>urlparse = py_urlparse, parse_qs = py_parse_qs\<rparr>"

definition extract_video_id :: "string \<Rightarrow> string option" where
  "extract_video_id url = extract_video_id_with stdlib url"


section \<open>The request handlers (\<open>app/main.py\<close>, \<open>YouTubeTranscriber.process_url\<close>)\<close>

text \<open>
  Exceptions are values. \<open>HTTPException\<close> is FastAPI's exception class, a subclass of
  \<open>Exception\<close>, with its status code and detail; its text is the status, a colon and the
  detail. Every other exception is a \<open>Failure\<close> with its text.
\<close>

datatype exn = HTTPException nat string | Failure string

fun exn_str :: "exn \<Rightarrow> string" where
  "exn_str (HTTPException status detail) = digits_of status @ '': '' @ detail"
| "exn_str (Failure text) = text"

text \<open>The calls a request makes to the services that reach the providers.\<close>

datatype provider_call =
    TranscriptServiceCall string
  | ChapterServiceCall string
  | MetadataCall string
  | TranscriptCall string

record transcript_data =
  td_title :: string
  td_transcript :: string
  td_duration :: int

record TranscriptResponse =
  resp_video_id :: string
  resp_title :: string
  resp_transcript :: string
  resp_chapters :: "char ChapterData list"
  resp_duration :: int

text \<open>The two services of the web application, as functions of the video id:
  \<open>TranscriptService.get_transcript\<close> returns its dictionary or raises, and
  \<open>ChapterService.get_chapters\<close> returns a list.\<close>

record services =
  transcript_service :: "string \<Rightarrow> exn + transcript_data"
  chapter_service :: "string \<Rightarrow> char ChapterData list"

text \<open>The body of the \<open>try\<close> block of \<open>get_transcript\<close>, with the calls it made.\<close>

definition get_transcript_body ::
  "url_lib \<Rightarrow> services \<Rightarrow> string \<Rightarrow> (exn + TranscriptResponse) \<times> provider_call list" where
  "get_transcript_body lib svc url =
     (case extract_video_id_with lib url of
        None \<Rightarrow> (Inl (HTTPException 400 ''Invalid YouTube URL''), [])
      | Some video_id \<Rightarrow>
          if video_id = [] then (Inl (HTTPException 400 ''Invalid YouTube URL''), [])
          else
            (case transcript_service svc video_id of
               Inl e \<Rightarrow> (Inl e, [TranscriptServiceCall video_id])
             | Inr td \<Rightarrow>
                 (Inr \<lparr>resp_video_id = video_id, resp_title = td_title td,
                       resp_transcript = td_transcript td,
                       resp_chapters = chapter_service svc video_id,
                       resp_duration = td_duration td\<rparr>,
                  [TranscriptServiceCall video_id, ChapterServiceCall video_id])))"

text \<open>\<open>get_transcript\<close>: the body runs inside \<open>try\<close>, and \<open>except Exception as e\<close> answers
  every exception raised in it with \<open>HTTPException(status_code=500, detail=str(e))\<close>.\<close>

definition get_transcript ::
  "url_lib \<Rightarrow> services \<Rightarrow> string \<Rightarrow> (exn + TranscriptResponse) \<times> provider_call list" where
  "get_transcript lib svc url =
     (case get_transcript_body lib svc url of
        (Inl e, calls) \<Rightarrow> (Inl (HTTPException 500 (exn_str e)), calls)
      | (Inr response, calls) \<Rightarrow> (Inr response, calls))"

text \<open>The status the web API answers with.\<close>

fun http_status :: "exn + TranscriptResponse \<Rightarrow> nat" where
  "http_status (Inl (HTTPException status detail)) = status"
| "http_status (Inl (Failure text)) = 500"
| "http_status (Inr response) = 200"

text \<open>
  The command line's \<open>process_url\<close> up to the point where the output is written: it
  returns False with a message on the error stream, or goes on with the metadata and the
  transcript. \<open>get_video_metadata\<close> and \<open>extract_transcript\<close> catch their own exceptions.
\<close>

record cli_services =
  get_video_metadata :: "string \<Rightarrow> (string \<times> string) list"
  extract_transcript :: "string \<Rightarrow> string option"

datatype cli_outcome =
    ReturnFalse string
  | WriteOutput "(string \<times> string) list" string

definition process_url ::
  "url_lib \<Rightarrow> cli_services \<Rightarrow> string \<Rightarrow> bool \<Rightarrow> cli_outcome \<times> provider_call list" where
  "process_url lib svc url include_metadata =
     (case extract_video_id_with lib url of
        None \<Rightarrow> (ReturnFalse (''Error: Could not extract video ID from URL: '' @ url), [])
      | Some video_id \<Rightarrow>
          if video_id = []
          then (ReturnFalse (''Error: Could not extract video ID from URL: '' @ url), [])
          else
            let metadata = (if include_metadata then get_video_metadata svc video_id else []);
                calls = (if include_metadata then [MetadataCall video_id] else [])
                        @ [TranscriptCall video_id]
            in (case extract_transcript svc video_id of
                  None \<Rightarrow>
                    (ReturnFalse (''Error: No transcript available for video ID: '' @ video_id),
                     calls)
                | Some transcript \<Rightarrow>
                    if transcript = []
                    then (ReturnFalse (''Error: No transcript available for video ID: ''
                                       @ video_id), calls)
                    else (WriteOutput metadata transcript, calls)))"


section \<open>Chapters from the description (\<open>ChapterService._parse_chapters_from_text\<close>)\<close>

text \<open>
  A description is a Python string over any characters. What the method asks of Python's
  string library is a parameter: for a text of characters \<open>'c\<close>,
  \<^item> \<open>findall k text\<close> is \<open>re.findall(patterns[k], text, re.MULTILINE | re.IGNORECASE)\<close>
    for the pattern at position \<open>k\<close> of the method's list, the pairs of the timestamp
    group and the title group;
  \<^item> \<open>strip\<close> is \<open>str.strip()\<close>;
  \<^item> \<open>sub_line_breaks\<close> is \<open>re.sub(r'[\n\r\t]+', ' ', title)\<close> and \<open>sub_whitespace\<close> is
    \<open>re.sub(r'\s+', ' ', title)\<close>;
  \<^item> \<open>split_colon\<close> is \<open>timestamp_str.split(':')\<close> and \<open>int_of\<close> is \<open>int\<close>, with \<open>None\<close> for
    ValueError.
  The method is modelled for every such library, hence for Python's on every text.
\<close>

record 'c str_lib =
  findall :: "nat \<Rightarrow> 'c list \<Rightarrow> ('c list \<times> 'c list) list"
  strip :: "'c list \<Rightarrow> 'c list"
  sub_line_breaks :: "'c list \<Rightarrow> 'c list"
  sub_whitespace :: "'c list \<Rightarrow> 'c list"
  split_colon :: "'c list \<Rightarrow> 'c list list"
  int_of :: "'c list \<Rightarrow> int option"

text \<open>\<open>_parse_timestamp\<close> over the library.\<close>

definition parse_timestamp_with :: "'c str_lib \<Rightarrow> 'c list \<Rightarrow> int option" where
  "parse_timestamp_with lib timestamp_str =
     (let parts = split_colon lib timestamp_str in
      if length parts = 2 then
        (case (int_of lib (parts ! 0), int_of lib (parts ! 1)) of
           (Some minutes, Some seconds) \<Rightarrow> Some (minutes * 60 + seconds)
         | _ \<Rightarrow> None)
      else if length parts = 3 then
        (case (int_of lib (parts ! 0), int_of lib (parts ! 1), int_of lib (parts ! 2)) of
           (Some hours, Some minutes, Some seconds) \<Rightarrow>
              Some (hours * 3600 + minutes * 60 + seconds)
         | _ \<Rightarrow> None)
      else None)"

text \<open>The cleaning of a title: strip, runs of line feed, carriage return and tab to one
  space, runs of whitespace to one space, strip.\<close>

definition clean_title :: "'c str_lib \<Rightarrow> 'c list \<Rightarrow> 'c list" where
  "clean_title lib t = strip lib (sub_whitespace lib (sub_line_breaks lib (strip lib t)))"

text \<open>What one match contributes: nothing when the timestamp does not parse or the cleaned
  title is empty, else the cleaned title, the start and the timestamp as written.\<close>

definition kept_match :: "'c str_lib \<Rightarrow> 'c list \<times> 'c list \<Rightarrow> ('c list \<times> int \<times> 'c list) option" where
  "kept_match lib m =
     (case parse_timestamp_with lib (strip lib (fst m)) of
        None \<Rightarrow> None
      | Some start \<Rightarrow>
          if clean_title lib (snd m) \<noteq> []
          then Some (clean_title lib (snd m), start, fst m) else None)"

text \<open>The body of the loop over the matches, on the chapters built so far.\<close>

definition chapter_step ::
  "'c str_lib \<Rightarrow> 'c ChapterData list \<Rightarrow> 'c list \<times> 'c list \<Rightarrow> 'c ChapterData list" where
  "chapter_step lib chapters m =
     (case kept_match lib m of
        None \<Rightarrow> chapters
      | Some (t, start, timestamp_str) \<Rightarrow>
          (if chapters \<noteq> [] \<and> end_time (last chapters) = None
           then set_last_end start chapters else chapters)
          @ [\<lparr>title = t, start_time = start, end_time = None, timestamp = timestamp_str\<rparr>])"

text \<open>The loop over the patterns, by their positions in the list: a pattern with matches
  runs the inner loop, and the outer loop stops as soon as there are chapters.\<close>

fun patterns_loop ::
  "'c str_lib \<Rightarrow> nat list \<Rightarrow> 'c list \<Rightarrow> 'c ChapterData list \<Rightarrow> 'c ChapterData list" where
  "patterns_loop lib [] text chapters = chapters"
| "patterns_loop lib (pattern # patterns) text chapters =
     (let matches = findall lib pattern text in
      if matches \<noteq> [] then
        (let chapters' = foldl (chapter_step lib) chapters matches
         in if chapters' \<noteq> [] then chapters' else patterns_loop lib patterns text chapters')
      else patterns_loop lib patterns text chapters)"

text \<open>The method's list has three patterns.\<close>

definition pattern_positions :: "nat list" where
  "pattern_positions = [0, 1, 2]"

definition parse_chapters_from_text_with :: "'c str_lib \<Rightarrow> 'c list \<Rightarrow> 'c ChapterData list" where
  "parse_chapters_from_text_with lib text = patterns_loop lib pattern_positions text []"

text \<open>\<open>_extract_chapters_from_description\<close>: nothing on a provider error or without a
  description.\<close>

definition extract_chapters_from_description ::
  "'c str_lib \<Rightarrow> py_error + 'c list option \<Rightarrow> 'c ChapterData list" where
  "extract_chapters_from_description lib provider =
     (case provider of
        Inl e \<Rightarrow> []
      | Inr None \<Rightarrow> []
      | Inr (Some description) \<Rightarrow>
          if description = [] then [] else parse_chapters_from_text_with lib description)"

text \<open>The chapters of a list of kept matches, each closed by the start of the next.\<close>

fun chain :: "('c list \<times> int \<times> 'c list) list \<Rightarrow> 'c ChapterData list" where
  "chain [] = []"
| "chain [(t, s, ts)] = [\<lparr>title = t, start_time = s, end_time = None, timestamp = ts\<rparr>]"
| "chain ((t, s, ts) # (t', s', ts') # ks) =
     \<lparr>title = t, start_time = s, end_time = Some s', timestamp = ts\<rparr> # chain ((t', s', ts') # ks)"

text \<open>The chapters one pattern gives on its own.\<close>

definition chapters_of_pattern :: "'c str_lib \<Rightarrow> nat \<Rightarrow> 'c list \<Rightarrow> 'c ChapterData list" where
  "chapters_of_pattern lib k text = chain (List.map_filter (kept_match lib) (findall lib k text))"

subsection \<open>The library on code points below 256\<close>

text \<open>
  The three patterns, in the method's order, matched on texts of code points below 256.
  The timestamp is group 1 and the title group 2. The dash class of the source lists the
  hyphen (code point 45), the en dash (8211) and the em dash (8212), and the class of the
  third pattern the colon (58) before them. The patterns hold no letter, so IGNORECASE
  changes nothing.
\<close>

definition dashes :: "int list" where
  "dashes = [45, 8211, 8212]"

definition timestamp_group :: regex where
  "timestamp_group =
     Grp 1 (Seq (Rep Digit 1 (Some 2) True)
           (Seq (Lit CHR '':'')
           (Seq (Rep Digit 2 (Some 2) True)
                (Opt (Seq (Lit CHR '':'') (Rep Digit 2 (Some 2) True))))))"

definition title_group :: regex where
  "title_group =
     Seq (Grp 2 (Rep Dot 1 None False))
         (Look (Alt (Lit (CHR 0x0A))
               (Alt (Seq (Rep Digit 1 (Some 2) True)
                         (Seq (Lit CHR '':'') (Rep Digit 2 (Some 2) True)))
                    Eol)))"

definition chapter_patterns :: "regex list" where
  "chapter_patterns =
     [Seq timestamp_group (Seq (Rep Space 0 None True) (Seq (Cls (Points dashes))
        (Seq (Rep Space 0 None True) title_group))),
      Seq timestamp_group (Seq (Rep Space 1 None True) title_group),
      Seq timestamp_group (Seq (Rep Space 0 None True) (Seq (Cls (Points (58 # dashes)))
        (Seq (Rep Space 0 None True) title_group)))]"

definition chapter_flags :: re_flags where
  "chapter_flags = \<lparr>ignorecase = True, multiline = True\<rparr>"

text \<open>\<open>re.findall\<close> with two groups gives the pairs of their texts.\<close>

definition findall_pairs :: "regex \<Rightarrow> string \<Rightarrow> (string \<times> string) list" where
  "findall_pairs pattern text =
     map (\<lambda>m. (group 1 m, group 2 m)) (re_findall chapter_flags pattern text)"

definition latin1_lib :: "char str_lib" where
  "latin1_lib =
     \<lparr>findall = (\<lambda>k text. findall_pairs (chapter_patterns ! k) text),
      strip = py_strip,
      sub_line_breaks =
        re_sub no_flags (Rep (OneOf [CHR 0x0A, CHR 0x0D, CHR 0x09]) 1 None True) '' '',
      sub_whitespace = re_sub no_flags (Rep Space 1 None True) '' '',
      split_colon = split_on CHR '':'',
      int_of = py_int_of_str\<rparr>"

definition parse_chapters_from_text :: "string \<Rightarrow> char ChapterData list" where
  "parse_chapters_from_text text = parse_chapters_from_text_with latin1_lib text"

text \<open>\<open>get_chapters\<close>: the metadata first, the description when the metadata gave nothing.
  Each strategy asks the provider on its own.\<close>

definition get_chapters ::
  "char str_lib \<Rightarrow> py_error + video_info \<Rightarrow> py_error + video_info \<Rightarrow> char ChapterData list" where
  "get_chapters lib first_answer second_answer =
     (let chapters = extract_chapters_from_metadata first_answer
      in if chapters = []
         then extract_chapters_from_description lib
                (case second_answer of Inl e \<Rightarrow> Inl e | Inr info \<Rightarrow> Inr (info_description info))
         else chapters)"

text \<open>Descriptions used as examples: the specification's, one whose first line has a dash
  and nothing after it, and one whose timestamps go backwards.\<close>

definition example_description :: string where
  "example_description = ''0:00 - Intro'' @ [CHR 0x0A] @ ''1:30 - Setup''"


definition backwards_description :: string where
  "backwards_description = ''5:00 - Outro'' @ [CHR 0x0A] @ ''0:00 - Intro''"

text \<open>Provider chapters whose first end is not the second start.\<close>

definition gap_chapters :: "raw_chapter list" where
  "gap_chapters =
     [\<lparr>rc_title = Some ''A'', rc_start_time = Some 0, rc_end_time = Some 25\<rparr>,
      \<lparr>rc_title = Some ''B'', rc_start_time = Some 30, rc_end_time = None\<rparr>]"


section \<open>The reflow engine (\<open>SimpleFormatter.format_transcript\<close>)\<close>

text \<open>
  A transcript is Python text over any characters. What the method asks of Python's string
  library is a parameter: for a text of characters \<open>'c\<close>,
  \<^item> \<open>lit_char\<close> is a character of a literal of the source as a character of the text;
  \<^item> \<open>replace_line_feeds\<close> is \<open>text.replace('\n', ' ')\<close> and \<open>str_strip\<close> is \<open>str.strip()\<close>;
  \<^item> \<open>sub_brackets\<close> is \<open>re.sub(r'\[.*?\]', '', text)\<close> and \<open>sub_spaces\<close> is
    \<open>re.sub(r'\s+', ' ', full_text)\<close>;
  \<^item> \<open>split_sentences\<close> is \<open>re.split(r'(?<=[.!?])\s+', full_text)\<close>;
  \<^item> \<open>split_words\<close> is \<open>full_text.split()\<close>, whose words are never empty: a word is its
    first character and the rest;
  \<^item> \<open>isupper\<close> is \<open>str.isupper()\<close> on one character and \<open>str_lower\<close> is \<open>str.lower()\<close>;
  \<^item> \<open>str_upper\<close> is \<open>str.upper()\<close> on one character, which is never empty and may be
    longer than one character: the first character of the result and the rest.
\<close>

record 'c text_lib =
  lit_char :: "char \<Rightarrow> 'c"
  replace_line_feeds :: "'c list \<Rightarrow> 'c list"
  str_strip :: "'c list \<Rightarrow> 'c list"
  sub_brackets :: "'c list \<Rightarrow> 'c list"
  sub_spaces :: "'c list \<Rightarrow> 'c list"
  split_sentences :: "'c list \<Rightarrow> 'c list list"
  split_words :: "'c list \<Rightarrow> ('c \<times> 'c list) list"
  isupper :: "'c \<Rightarrow> bool"
  str_lower :: "'c list \<Rightarrow> 'c list"
  str_upper :: "'c \<Rightarrow> 'c \<times> 'c list"

definition lit :: "'c text_lib \<Rightarrow> string \<Rightarrow> 'c list" where
  "lit lib s = map (lit_char lib) s"

definition word_text :: "'c \<times> 'c list \<Rightarrow> 'c list" where
  "word_text w = fst w # snd w"

definition upper_text :: "'c text_lib \<Rightarrow> 'c \<Rightarrow> 'c list" where
  "upper_text lib c = word_text (str_upper lib c)"

text \<open>
  The value of a fragment's \<open>text\<close>: a string, or something that is not one (\<open>None\<close>, a
  number). A fragment as the formatter reads it: an object with a \<open>text\<close> attribute, a
  dictionary with or without a \<open>text\<close> key, or any other value, read through \<open>str\<close>.
\<close>

datatype 'c py_text = Str "'c list" | NotStr

datatype 'c segment = Snippet "'c py_text" | DictSeg "'c py_text option" | OtherSeg "'c list"

fun segment_text :: "'c segment \<Rightarrow> 'c py_text" where
  "segment_text (Snippet text) = text"
| "segment_text (DictSeg None) = Str []"
| "segment_text (DictSeg (Some text)) = text"
| "segment_text (OtherSeg shown) = Str shown"

text \<open>The body of the first loop up to the test \<open>if text\<close>; \<open>text.replace\<close> on a value that is
  not a string raises AttributeError.\<close>

definition clean_segment :: "'c text_lib \<Rightarrow> 'c segment \<Rightarrow> py_error + 'c list" where
  "clean_segment lib seg =
     (case segment_text seg of
        NotStr \<Rightarrow> Inl AttributeError
      | Str text \<Rightarrow>
          Inr (str_strip lib (sub_brackets lib (str_strip lib (replace_line_feeds lib text)))))"

fun all_text_loop ::
  "'c text_lib \<Rightarrow> 'c segment list \<Rightarrow> 'c list list \<Rightarrow> py_error + 'c list list" where
  "all_text_loop lib [] all_text = Inr all_text"
| "all_text_loop lib (seg # rest) all_text =
     (case clean_segment lib seg of
        Inl e \<Rightarrow> Inl e
      | Inr text \<Rightarrow>
          all_text_loop lib rest (if text \<noteq> [] then all_text @ [text] else all_text))"

definition full_text_of :: "'c text_lib \<Rightarrow> 'c list list \<Rightarrow> 'c list" where
  "full_text_of lib all_text = sub_spaces lib (py_join (lit lib '' '') all_text)"

text \<open>The loop over \<open>enumerate(words)\<close>: the words still to come, the candidate sentence
  and the sentences closed so far. \<open>i + 1 < len(words)\<close> says that a word is still to come,
  and \<open>words[i + 1][0]\<close> is its first character.\<close>

fun resegment_loop ::
  "'c text_lib \<Rightarrow> ('c \<times> 'c list) list \<Rightarrow> ('c \<times> 'c list) list \<Rightarrow> 'c list list \<Rightarrow> 'c list list" where
  "resegment_loop lib [] current_sentence sentences =
     (if current_sentence \<noteq> []
      then sentences @ [py_join (lit lib '' '') (map word_text current_sentence)]
      else sentences)"
| "resegment_loop lib (word # rest) current_sentence sentences =
     (let current = current_sentence @ [word];
          sentence_text = py_join (lit lib '' '') (map word_text current)
      in
      if length current \<ge> 15 then
        (if rest \<noteq> [] \<and> isupper lib (fst (hd rest))
         then resegment_loop lib rest [] (sentences @ [sentence_text])
         else if length current \<ge> 20
         then resegment_loop lib rest [] (sentences @ [sentence_text])
         else resegment_loop lib rest current sentences)
      else resegment_loop lib rest current sentences)"

definition sentences_of :: "'c text_lib \<Rightarrow> 'c list \<Rightarrow> 'c list list" where
  "sentences_of lib full_text =
     (let sentences = split_sentences lib full_text in
      if length sentences \<le> 3 \<and> length full_text > 200
      then resegment_loop lib (split_words lib full_text) [] []
      else sentences)"

definition markers :: "string list" where
  "markers = [''now '', ''next,'', ''however,'', ''but '', ''so '', ''therefore'',
              ''furthermore'', ''additionally'', ''finally'', ''in conclusion'', ''let me'',
              ''let'' @ [CHR 0x27] @ ''s'', ''okay'', ''alright'', ''well,'']"

definition starts_with_marker :: "'c text_lib \<Rightarrow> 'c list \<Rightarrow> bool" where
  "starts_with_marker lib sentence =
     list_ex (\<lambda>m. starts_with (lit lib m) (str_lower lib sentence)) markers"

text \<open>The loop that groups sentences: the sentences still to come, the current paragraph
  and the paragraphs closed so far.\<close>

fun paragraph_loop ::
  "'c text_lib \<Rightarrow> 'c list list \<Rightarrow> 'c list list \<Rightarrow> 'c list list \<Rightarrow> 'c list list" where
  "paragraph_loop lib [] current_paragraph paragraphs =
     (if current_paragraph \<noteq> []
      then paragraphs @ [py_join (lit lib '' '') current_paragraph]
      else paragraphs)"
| "paragraph_loop lib (s # rest) current_paragraph paragraphs =
     (let sentence = str_strip lib s in
      if sentence = [] then paragraph_loop lib rest current_paragraph paragraphs
      else
        let current = current_paragraph @ [sentence];
            paragraph_text = py_join (lit lib '' '') current
        in if length current \<ge> 4
           then paragraph_loop lib rest [] (paragraphs @ [paragraph_text])
           else if length paragraph_text > 500 \<and> length current \<ge> 2
           then paragraph_loop lib rest [] (paragraphs @ [paragraph_text])
           else if starts_with_marker lib sentence then
             (if length current > 1
              then paragraph_loop lib rest [sentence]
                     (if butlast current \<noteq> []
                      then paragraphs @ [py_join (lit lib '' '') (butlast current)]
                      else paragraphs)
              else paragraph_loop lib rest current paragraphs)
           else paragraph_loop lib rest current paragraphs)"

text \<open>The last pass over a paragraph: dropped when blank, else its first character in upper
  case (a paragraph of one character is that character) and a full stop added unless it
  ends in one of \<open>.!?\<close>.\<close>

definition finish_paragraph :: "'c text_lib \<Rightarrow> 'c list \<Rightarrow> 'c list option" where
  "finish_paragraph lib para =
     (let p = str_strip lib para in
      if p = [] then None
      else
        let q = (if length p > 1 then upper_text lib (hd p) @ tl p else upper_text lib (hd p))
        in Some (if last q \<notin> set (lit lib ''.!?'') then q @ lit lib ''.'' else q))"

definition paragraphs_of :: "'c text_lib \<Rightarrow> 'c list list \<Rightarrow> 'c list list" where
  "paragraphs_of lib all_text =
     paragraph_loop lib (sentences_of lib (full_text_of lib all_text)) [] []"

definition formatted_paragraphs :: "'c text_lib \<Rightarrow> 'c list list \<Rightarrow> 'c list list" where
  "formatted_paragraphs lib all_text =
     List.map_filter (finish_paragraph lib) (paragraphs_of lib all_text)"

definition format_transcript :: "'c text_lib \<Rightarrow> 'c segment list \<Rightarrow> py_error + 'c list" where
  "format_transcript lib segments =
     (if segments = [] then Inr []
      else
        (case all_text_loop lib segments [] of
           Inl e \<Rightarrow> Inl e
         | Inr all_text \<Rightarrow>
             Inr (py_join (lit lib [CHR 0x0A, CHR 0x0A]) (formatted_paragraphs lib all_text))))"

subsection \<open>The re-segmentation in the specification's words\<close>

text \<open>
  A candidate of \<open>n\<close> words closes when it has reached 15 words and the following word
  starts with an upper-case letter, or when it has reached 20 words; the first count that
  closes is taken, and the words left at the end form a last sentence.
\<close>

definition closes_at :: "'c text_lib \<Rightarrow> ('c \<times> 'c list) list \<Rightarrow> nat \<Rightarrow> bool" where
  "closes_at lib words n \<longleftrightarrow>
     (15 \<le> n \<and> n < length words \<and> isupper lib (fst (words ! n))) \<or> 20 \<le> n"

function spec_resegment :: "'c text_lib \<Rightarrow> ('c \<times> 'c list) list \<Rightarrow> 'c list list" where
  "spec_resegment lib words =
     (if words = [] then []
      else
        (case find (closes_at lib words) (map Suc [0 ..< length words]) of
           None \<Rightarrow> [py_join (lit lib '' '') (map word_text words)]
         | Some n \<Rightarrow>
             py_join (lit lib '' '') (map word_text (take n words))
               # spec_resegment lib (drop n words)))"
  by pat_completeness auto
termination
proof (relation "measure (\<lambda>p. length (snd p))")
  show "wf (measure (\<lambda>p. length (snd p)))" by simp
next
  fix lib :: "'c text_lib" and words :: "('c \<times> 'c list) list" and n
  assume ne: "words \<noteq> []"
    and f: "find (closes_at lib words) (map Suc [0 ..< length words]) = Some n"
  from f obtain i where "i < length (map Suc [0 ..< length words])"
      and "n = map Suc [0 ..< length words] ! i"
    unfolding find_Some_iff by blast
  then have "1 \<le> n" by simp
  then show "((lib, drop n words), (lib, words)) \<in> measure (\<lambda>p. length (snd p))"
    using ne by simp
qed

declare spec_resegment.simps [simp del]

subsection \<open>The library on ASCII text\<close>

text \<open>
  A character of ASCII text is seven bits, the code points below 128; on such text each
  function of the library gives ASCII text again, and the literals of the source are
  ASCII. The library is the one of the other sections, read at these characters.
\<close>

datatype ascii = Ascii bool bool bool bool bool bool bool

fun to_char :: "ascii \<Rightarrow> char" where
  "to_char (Ascii b0 b1 b2 b3 b4 b5 b6) = Char b0 b1 b2 b3 b4 b5 b6 False"

fun of_char7 :: "char \<Rightarrow> ascii" where
  "of_char7 (Char b0 b1 b2 b3 b4 b5 b6 b7) = Ascii b0 b1 b2 b3 b4 b5 b6"

definition ascii :: "string \<Rightarrow> ascii list" where
  "ascii s = map of_char7 s"

definition on_chars :: "(string \<Rightarrow> string) \<Rightarrow> ascii list \<Rightarrow> ascii list" where
  "on_chars f s = map of_char7 (f (map to_char s))"

text \<open>The patterns \<open>\[.*?\]\<close> and \<open>(?<=[.!?])\s+\<close>.\<close>

definition bracket_pattern :: regex where
  "bracket_pattern = Seq (Lit CHR ''['') (Seq (Rep Dot 0 None False) (Lit CHR '']''))"

definition sentence_break :: regex where
  "sentence_break = Seq (Behind (OneOf ''.!?'')) (Rep Space 1 None True)"

text \<open>\<open>str.split()\<close>: the words between runs of whitespace; the word being read is its
  first character and the rest, reversed.\<close>

fun split_ws :: "(char \<times> string) option \<Rightarrow> string \<Rightarrow> (char \<times> string) list" where
  "split_ws None [] = []"
| "split_ws (Some (c, r)) [] = [(c, rev r)]"
| "split_ws cur (x # xs) =
     (if is_space x then
        (case cur of None \<Rightarrow> split_ws None xs | Some (c, r) \<Rightarrow> (c, rev r) # split_ws None xs)
      else
        (case cur of
           None \<Rightarrow> split_ws (Some (x, [])) xs
         | Some (c, r) \<Rightarrow> split_ws (Some (c, x # r)) xs))"

definition py_split :: "string \<Rightarrow> (char \<times> string) list" where
  "py_split s = split_ws None s"

definition ascii_lib :: "ascii text_lib" where
  "ascii_lib =
     \<lparr>lit_char = of_char7,
      replace_line_feeds = on_chars (map (\<lambda>c. if c = CHR 0x0A then CHR '' '' else c)),
      str_strip = on_chars py_strip,
      sub_brackets = on_chars (re_sub no_flags bracket_pattern []),
      sub_spaces = on_chars (re_sub no_flags (Rep Space 1 None True) '' ''),
      split_sentences = (\<lambda>s. map (map of_char7) (re_split no_flags sentence_break (map to_char s))),
      split_words = (\<lambda>s. map (\<lambda>w. (of_char7 (fst w), map of_char7 (snd w))) (py_split (map to_char s))),
      isupper = (\<lambda>c. is_upper (to_char c)),
      str_lower = on_chars (map to_lower),
      str_upper = (\<lambda>c. (of_char7 (to_upper (to_char c)), []))\<rparr>"


definition unpunctuated_text :: string where
  "unpunctuated_text =
     concat (replicate 15 ''aaaaa '') @ ''Bbbbb '' @ concat (replicate 19 ''ccccc '') @ ''ddddd''"

definition unpunctuated_segments :: "ascii segment list" where
  "unpunctuated_segments = [Snippet (Str (ascii unpunctuated_text))]"



section \<open>Decimal strings and timestamps: lemmas\<close>


lemma is_digit_digit_char: "n < 10 \<Longrightarrow> is_digit (digit_char n)"
  by (simp add: is_digit_def digit_char_def code_def)

lemma digit_val_digit_char: "n < 10 \<Longrightarrow> digit_val (digit_char n) = n"
  by (simp add: digit_val_def digit_char_def code_def)

lemma digit_char_digit_val: "is_digit c \<Longrightarrow> digit_char (digit_val c) = c"
  by (simp add: is_digit_def digit_val_def digit_char_def code_def)

lemma digit_val_less: "is_digit c \<Longrightarrow> digit_val c < 10"
  by (auto simp: is_digit_def digit_val_def)

lemma digits_of_digits: "list_all is_digit (digits_of n)"
proof (induction n rule: digits_of.induct)
  case (1 n)
  show ?case
  proof (cases "n < 10")
    case True
    then show ?thesis by (subst digits_of.simps) (simp add: is_digit_digit_char)
  next
    case False
    then show ?thesis using 1 by (subst digits_of.simps) (simp add: is_digit_digit_char)
  qed
qed

lemma digits_of_nonempty: "digits_of n \<noteq> []"
  by (subst digits_of.simps) simp

lemma dec_val_snoc: "dec_val (ds @ [c]) = 10 * dec_val ds + digit_val c"
  by (simp add: dec_val_def)

lemma dec_val_digits_of: "dec_val (digits_of n) = n"
proof (induction n rule: digits_of.induct)
  case (1 n)
  show ?case
  proof (cases "n < 10")
    case True
    then show ?thesis
      by (subst digits_of.simps) (simp add: dec_val_def digit_val_digit_char)
  next
    case False
    then have "dec_val (digits_of (n div 10)) = n div 10" using 1 by simp
    then show ?thesis using False
      by (subst digits_of.simps) (simp add: dec_val_snoc digit_val_digit_char)
  qed
qed

lemma length_digits_of_small: "n < 10 \<Longrightarrow> length (digits_of n) = 1"
  by (subst digits_of.simps) simp

lemma length_digits_of_big: "10 \<le> n \<Longrightarrow> 2 \<le> length (digits_of n)"
  by (subst digits_of.simps) (use digits_of_nonempty [of "n div 10"] in \<open>cases "digits_of (n div 10)"; simp\<close>)

lemma length_digits_of_two: "10 \<le> n \<Longrightarrow> n < 100 \<Longrightarrow> length (digits_of n) = 2"
  by (subst digits_of.simps) (simp add: length_digits_of_small)


lemma not_space_digit: "is_digit c \<Longrightarrow> \<not> is_int_space c"
  by (auto simp: is_digit_def is_int_space_def)

lemma digit_not_special:
  "is_digit c \<Longrightarrow> c \<noteq> CHR ''_'' \<and> c \<noteq> CHR ''-'' \<and> c \<noteq> CHR ''+'' \<and> c \<noteq> CHR '':''"
  by (auto simp: is_digit_def code_def)

lemma split_on_absent: "sep \<notin> set s \<Longrightarrow> split_on sep s = [s]"
  by (induction s) auto

lemma split_on_append:
  "sep \<notin> set a \<Longrightarrow> split_on sep (a @ sep # b) = a # split_on sep b"
  by (induction a) auto

lemma strip_with_id:
  assumes "s \<noteq> []" "\<not> p (hd s)" "\<not> p (last s)"
  shows "strip_with p s = s"
proof -
  from assms have a: "dropWhile p s = s" by (cases s) auto
  from assms have "rev s \<noteq> []" "\<not> p (hd (rev s))" by (auto simp: hd_rev)
  then have "dropWhile p (rev s) = rev s" by (cases "rev s") auto
  with a show ?thesis by (simp add: strip_with_def)
qed

lemma py_int_of_str_digits:
  assumes "ds \<noteq> []" "list_all is_digit ds"
  shows "py_int_of_str ds = Some (int (dec_val ds))"
proof -
  from assms have hd: "is_digit (hd ds)" and lst: "is_digit (last ds)"
    by (auto simp: list_all_iff)
  have strip: "strip_with is_int_space ds = ds"
    using assms(1) hd lst by (intro strip_with_id) (auto simp: not_space_digit)
  have nound: "CHR ''_'' \<notin> set ds"
    using assms(2) digit_not_special by (auto simp: list_all_iff)
  then have ok: "int_body_ok ds"
    using assms by (simp add: int_body_ok_def split_on_absent)
  have val: "int_body_val ds = dec_val ds"
  proof -
    have "filter (\<lambda>c. c \<noteq> CHR ''_'') ds = ds"
      using nound by (induction ds) auto
    then show ?thesis by (simp add: int_body_val_def)
  qed
  obtain c r where ds: "ds = c # r" using assms(1) by (cases ds) auto
  with hd have "c \<noteq> CHR ''-''" "c \<noteq> CHR ''+''" using digit_not_special by auto
  then show ?thesis using strip ok val ds by (simp add: py_int_of_str_def)
qed

lemma dec_val_Cons0: "dec_val (CHR ''0'' # ds) = dec_val ds"
  by (simp add: dec_val_def digit_val_def code_def)

lemma fmt02d_digits: "0 \<le> n \<Longrightarrow> list_all is_digit (fmt02d n) \<and> fmt02d n \<noteq> []"
  by (simp add: fmt02d_def Let_def digits_of_digits digits_of_nonempty is_digit_def code_def)

lemma dec_val_fmt02d: "0 \<le> n \<Longrightarrow> int (dec_val (fmt02d n)) = n"
  by (simp add: fmt02d_def Let_def dec_val_Cons0 dec_val_digits_of)

lemma py_int_of_str_fmt02d: "0 \<le> n \<Longrightarrow> py_int_of_str (fmt02d n) = Some n"
  using py_int_of_str_digits [of "fmt02d n"] fmt02d_digits [of n] dec_val_fmt02d [of n]
  by simp

lemma fmt02d_no_colon: "0 \<le> n \<Longrightarrow> CHR '':'' \<notin> set (fmt02d n)"
  using fmt02d_digits [of n] digit_not_special by (auto simp: list_all_iff)

lemma split_two_fields:
  "0 \<le> a \<Longrightarrow> 0 \<le> b \<Longrightarrow> split_on CHR '':'' (fmt02d a @ CHR '':'' # fmt02d b) = [fmt02d a, fmt02d b]"
  by (simp add: split_on_append split_on_absent fmt02d_no_colon)

lemma split_three_fields:
  "0 \<le> a \<Longrightarrow> 0 \<le> b \<Longrightarrow> 0 \<le> c \<Longrightarrow>
   split_on CHR '':'' (fmt02d a @ CHR '':'' # fmt02d b @ CHR '':'' # fmt02d c) = [fmt02d a, fmt02d b, fmt02d c]"
  by (simp add: split_on_append split_on_absent fmt02d_no_colon)

lemma parse_two_fields:
  assumes "0 \<le> a" "0 \<le> b"
  shows "parse_timestamp (fmt02d a @ CHR '':'' # fmt02d b) = Some (a * 60 + b)"
  unfolding parse_timestamp_def split_two_fields [OF assms]
  by (simp add: py_int_of_str_fmt02d assms)

lemma parse_three_fields:
  assumes "0 \<le> a" "0 \<le> b" "0 \<le> c"
  shows "parse_timestamp (fmt02d a @ CHR '':'' # fmt02d b @ CHR '':'' # fmt02d c)
         = Some (a * 3600 + b * 60 + c)"
  unfolding parse_timestamp_def split_three_fields [OF assms]
  by (simp add: py_int_of_str_fmt02d assms)

lemma hms_decompose: "(s::int) div 3600 * 3600 + (s mod 3600) div 60 * 60 + s mod 60 = s"
proof -
  have "(s mod 3600) mod 60 = s mod 60" by (simp add: mod_mod_cancel)
  moreover have "(s mod 3600) div 60 * 60 + (s mod 3600) mod 60 = s mod 3600" by simp
  moreover have "s div 3600 * 3600 + s mod 3600 = s" by simp
  ultimately show ?thesis by linarith
qed

lemma parse_format_roundtrip:
  assumes "0 \<le> s"
  shows "parse_timestamp (format_timestamp s) = Some s"
proof -
  let ?h = "s div 3600" and ?m = "(s mod 3600) div 60" and ?c = "s mod 60"
  have nn: "0 \<le> ?h" "0 \<le> ?m" "0 \<le> ?c" using assms by simp_all
  show ?thesis
  proof (cases "?h > 0")
    case True
    then have "format_timestamp s = fmt02d ?h @ CHR '':'' # fmt02d ?m @ CHR '':'' # fmt02d ?c"
      by (simp add: format_timestamp_def Let_def)
    then show ?thesis using parse_three_fields [OF nn] hms_decompose [of s] by simp
  next
    case False
    then have h0: "?h = 0" using nn by linarith
    from False have "format_timestamp s = fmt02d ?m @ CHR '':'' # fmt02d ?c"
      by (simp add: format_timestamp_def Let_def)
    then show ?thesis using parse_two_fields [OF nn(2,3)] hms_decompose [of s] h0 by simp
  qed
qed


lemma split_on_nonempty: "split_on sep s \<noteq> []"
  by (induction s) (auto split: list.splits)

lemma py_join_split_on: "py_join [sep] (split_on sep s) = s"
proof (induction s)
  case Nil
  show ?case by simp
next
  case (Cons c cs)
  obtain p ps where sp: "split_on sep cs = p # ps"
    using split_on_nonempty [of sep cs] by (cases "split_on sep cs") auto
  show ?case
  proof (cases "c = sep")
    case True
    then show ?thesis using Cons sp by simp
  next
    case False
    have "py_join [sep] ((c # p) # ps) = c # py_join [sep] (p # ps)"
      by (cases ps) auto
    then show ?thesis using False Cons sp by simp
  qed
qed

lemma split_on_parts_no_sep: "p \<in> set (split_on sep s) \<Longrightarrow> sep \<notin> set p"
proof (induction s arbitrary: p)
  case Nil
  then show ?case by simp
next
  case (Cons c cs)
  obtain q qs where sp: "split_on sep cs = q # qs"
    using split_on_nonempty [of sep cs] by (cases "split_on sep cs") auto
  with Cons show ?case by (auto split: if_splits)
qed

lemma digit_char_00: "digit_char 0 = CHR ''0''"
  by code_simp

lemma dec_val_pos:
  assumes "ds \<noteq> []" "list_all is_digit ds" "hd ds \<noteq> CHR ''0''"
  shows "0 < dec_val ds"
  using assms
proof (induction ds rule: rev_induct)
  case Nil
  then show ?case by simp
next
  case (snoc c ds)
  show ?case
  proof (cases "ds = []")
    case True
    from snoc.prems True have "is_digit c" "c \<noteq> CHR ''0''" by auto
    then have "digit_val c \<noteq> 0"
      using digit_char_digit_val [of c] digit_char_00 by (cases "digit_val c = 0") simp_all
    then show ?thesis using True by (simp add: dec_val_def)
  next
    case False
    with snoc have "0 < dec_val ds" by auto
    then show ?thesis by (simp add: dec_val_snoc)
  qed
qed

lemma digits_of_dec_val:
  assumes "ds \<noteq> []" "list_all is_digit ds" "hd ds \<noteq> CHR ''0''"
  shows "digits_of (dec_val ds) = ds"
  using assms
proof (induction ds rule: rev_induct)
  case Nil
  then show ?case by simp
next
  case (snoc c ds)
  from snoc.prems have c: "is_digit c" by simp
  show ?case
  proof (cases "ds = []")
    case True
    then show ?thesis using c digit_val_less [OF c]
      by (subst digits_of.simps) (simp add: dec_val_def digit_char_digit_val)
  next
    case False
    with snoc.prems have p: "list_all is_digit ds" "hd ds \<noteq> CHR ''0''" by auto
    have pos: "0 < dec_val ds" using dec_val_pos [OF False p] .
    have ih: "digits_of (dec_val ds) = ds" using snoc.IH [OF False p] .
    have "\<not> dec_val (ds @ [c]) < 10" using pos by (simp add: dec_val_snoc)
    moreover have "dec_val (ds @ [c]) div 10 = dec_val ds"
      using digit_val_less [OF c] by (simp add: dec_val_snoc)
    moreover have "dec_val (ds @ [c]) mod 10 = digit_val c"
      using digit_val_less [OF c] by (simp add: dec_val_snoc)
    ultimately show ?thesis using ih c
      by (subst digits_of.simps) (simp add: digit_char_digit_val)
  qed
qed

lemma fmt02d_two_digits:
  assumes "length f = 2" "list_all is_digit f"
  shows "fmt02d (int (dec_val f)) = f"
proof -
  obtain a b where f: "f = [a, b]"
    using assms(1) by (cases f; cases "tl f") auto
  show ?thesis
  proof (cases "a = CHR ''0''")
    case True
    have b: "is_digit b" using assms(2) f by simp
    have "dec_val f = digit_val b" using f True by (simp add: dec_val_Cons0) (simp add: dec_val_def)
    moreover have "digits_of (digit_val b) = [b]"
      using digit_val_less [OF b] by (subst digits_of.simps) (simp add: digit_char_digit_val b)
    ultimately show ?thesis using f True by (simp add: fmt02d_def)
  next
    case False
    then have "digits_of (dec_val f) = f"
      using digits_of_dec_val [of f] assms f by simp
    then show ?thesis using assms(1) by (simp add: fmt02d_def)
  qed
qed

lemma fmt02d_hour_field:
  assumes "hour_field f"
  shows "fmt02d (int (dec_val f)) = f"
proof (cases "length f = 2")
  case True
  then show ?thesis using assms fmt02d_two_digits by (simp add: hour_field_def)
next
  case False
  with assms have "f \<noteq> []" "list_all is_digit f" "hd f \<noteq> CHR ''0''" "2 \<le> length f"
    by (auto simp: hour_field_def)
  then have "digits_of (dec_val f) = f" using digits_of_dec_val by simp
  then show ?thesis using \<open>2 \<le> length f\<close> by (simp add: fmt02d_def)
qed

lemma py_int_two_digit_field:
  "two_digit_field f \<Longrightarrow> py_int_of_str f = Some (int (dec_val f))"
  by (rule py_int_of_str_digits) (auto simp: two_digit_field_def)

lemma py_int_hour_field:
  "hour_field f \<Longrightarrow> py_int_of_str f = Some (int (dec_val f))"
  by (rule py_int_of_str_digits) (auto simp: hour_field_def)

lemma hms_div:
  fixes h m c :: int
  assumes "0 \<le> m" "m < 60" "0 \<le> c" "c < 60"
  shows "(h * 3600 + m * 60 + c) div 3600 = h"
    and "((h * 3600 + m * 60 + c) mod 3600) div 60 = m"
    and "(h * 3600 + m * 60 + c) mod 60 = c"
proof -
  have r: "0 \<le> m * 60 + c" "m * 60 + c < 3600" using assms by auto
  have e: "h * 3600 + m * 60 + c = (m * 60 + c) + h * 3600" by simp
  show "(h * 3600 + m * 60 + c) div 3600 = h"
    unfolding e using r by (simp add: div_pos_pos_trivial)
  have "(h * 3600 + m * 60 + c) mod 3600 = m * 60 + c"
    unfolding e using r by (simp add: mod_pos_pos_trivial)
  then show "((h * 3600 + m * 60 + c) mod 3600) div 60 = m"
    using assms by (simp add: div_pos_pos_trivial)
  have e2: "h * 3600 + m * 60 + c = c + (h * 60 + m) * 60" by simp
  have "(c + (h * 60 + m) * 60) mod 60 = c mod 60" by (rule mod_mult_self1)
  then show "(h * 3600 + m * 60 + c) mod 60 = c"
    unfolding e2 using assms by (simp only: mod_pos_pos_trivial)
qed

lemma canonical_roundtrip:
  assumes "canonical_timestamp s"
  shows "\<exists>n. parse_timestamp s = Some n \<and> format_timestamp n = s"
proof -
  let ?ps = "split_on CHR '':'' s"
  have join: "py_join '':'' ?ps = s" by (rule py_join_split_on)
  consider (two) m sec where "?ps = [m, sec]" "two_digit_field m" "two_digit_field sec"
    | (three) h m sec where "?ps = [h, m, sec]" "hour_field h" "two_digit_field m" "two_digit_field sec"
    using assms unfolding canonical_timestamp_def
    by (auto split: list.splits)
  then show ?thesis
  proof cases
    case two
    let ?m = "int (dec_val m)" and ?c = "int (dec_val sec)"
    have s: "s = m @ CHR '':'' # sec" using join two(1) by simp
    have b: "?m < 60" "?c < 60" "0 \<le> ?m" "0 \<le> ?c" using two by (auto simp: two_digit_field_def)
    have p: "parse_timestamp s = Some (?m * 60 + ?c)"
      using two by (simp add: parse_timestamp_def py_int_two_digit_field)
    have d: "(?m * 60 + ?c) div 3600 = 0" "((?m * 60 + ?c) mod 3600) div 60 = ?m"
            "(?m * 60 + ?c) mod 60 = ?c"
      using hms_div [of ?m ?c 0] b by simp_all
    have "format_timestamp (?m * 60 + ?c) = fmt02d ?m @ CHR '':'' # fmt02d ?c"
      unfolding format_timestamp_def Let_def d by simp
    also have "\<dots> = s"
      using two s by (simp add: fmt02d_two_digits two_digit_field_def)
    finally show ?thesis using p by blast
  next
    case three
    let ?h = "int (dec_val h)" and ?m = "int (dec_val m)" and ?c = "int (dec_val sec)"
    have s: "s = h @ CHR '':'' # m @ CHR '':'' # sec" using join three(1) by simp
    have b: "?m < 60" "?c < 60" "0 \<le> ?m" "0 \<le> ?c" "0 < ?h"
      using three by (auto simp: two_digit_field_def hour_field_def)
    have p: "parse_timestamp s = Some (?h * 3600 + ?m * 60 + ?c)"
      using three by (simp add: parse_timestamp_def py_int_two_digit_field py_int_hour_field)
    have d: "(?h * 3600 + ?m * 60 + ?c) div 3600 = ?h"
            "((?h * 3600 + ?m * 60 + ?c) mod 3600) div 60 = ?m"
            "(?h * 3600 + ?m * 60 + ?c) mod 60 = ?c"
      using hms_div [of ?m ?c ?h] b by simp_all
    have "format_timestamp (?h * 3600 + ?m * 60 + ?c)
          = fmt02d ?h @ CHR '':'' # fmt02d ?m @ CHR '':'' # fmt02d ?c"
      unfolding format_timestamp_def Let_def d using b by simp
    also have "\<dots> = s"
      using three s by (simp add: fmt02d_two_digits fmt02d_hour_field two_digit_field_def)
    finally show ?thesis using p by blast
  qed
qed


lemma length_fmt02d_small: "0 \<le> n \<Longrightarrow> n < 100 \<Longrightarrow> length (fmt02d n) = 2"
proof -
  assume n: "0 \<le> n" "n < 100"
  show ?thesis
  proof (cases "nat n < 10")
    case True
    then show ?thesis using n by (simp add: fmt02d_def length_digits_of_small)
  next
    case False
    then have "length (digits_of (nat n)) = 2" using n by (intro length_digits_of_two) auto
    then show ?thesis using n by (simp add: fmt02d_def)
  qed
qed

lemma length_fmt02d_ge: "0 \<le> n \<Longrightarrow> 2 \<le> length (fmt02d n)"
proof -
  assume n: "0 \<le> n"
  show ?thesis
  proof (cases "nat n < 10")
    case True
    then show ?thesis using n by (simp add: fmt02d_def length_digits_of_small)
  next
    case False
    then have "2 \<le> length (digits_of (nat n))" by (intro length_digits_of_big) auto
    then show ?thesis using n by (simp add: fmt02d_def)
  qed
qed

lemma fmt02d_pair:
  assumes "0 \<le> n" "n < 100"
  shows "\<exists>a b. fmt02d n = [a, b] \<and> is_digit a \<and> is_digit b"
proof -
  have "length (fmt02d n) = 2" using assms by (rule length_fmt02d_small)
  then obtain a b where ab: "fmt02d n = [a, b]"
    by (cases "fmt02d n"; cases "tl (fmt02d n)") auto
  moreover have "list_all is_digit (fmt02d n)" using fmt02d_digits [OF assms(1)] by simp
  ultimately show ?thesis by auto
qed

section \<open>Timestamps: the claims\<close>

text \<open>
  Claim C8, as stated: the formatter writes \<open>HH:MM:SS\<close> with two-digit fields. From one
  hundred hours on the hour field has three digits or more.
\<close>

theorem two_digit_hours_counterexample:
  "format_timestamp 360000 = ''100:00:00'' \<and>
   length (takeWhile (\<lambda>c. c \<noteq> CHR '':'') (format_timestamp 360000)) = 3"
  by code_simp

text \<open>
  Claim C8, amended. For every non-negative integer \<open>s\<close>, parsing the formatted timestamp
  gives \<open>s\<close> back. The formatter writes two digits, a colon and two digits when
  \<open>s < 3600\<close>, and otherwise an hour field followed by a minute and a second field of
  exactly two digits; the hour field is zero-padded to at least two digits, and has
  exactly two below one hundred hours.
\<close>

theorem format_then_parse:
  assumes "0 \<le> s"
  shows "parse_timestamp (format_timestamp s) = Some s \<and>
         (s < 3600 \<longrightarrow>
            (\<exists>a b c d. format_timestamp s = [a, b, CHR '':'', c, d] \<and>
                       list_all is_digit [a, b, c, d])) \<and>
         (3600 \<le> s \<longrightarrow>
            (\<exists>h a b c d. format_timestamp s = h @ [CHR '':'', a, b, CHR '':'', c, d] \<and>
                       2 \<le> length h \<and> (s < 360000 \<longrightarrow> length h = 2) \<and>
                       list_all is_digit (h @ [a, b, c, d])))"
proof (intro conjI impI)
  show "parse_timestamp (format_timestamp s) = Some s"
    using assms by (rule parse_format_roundtrip)
next
  let ?m = "(s mod 3600) div 60" and ?c = "s mod 60"
  have m: "0 \<le> ?m" "?m < 100" "0 \<le> ?c" "?c < 100" using assms by auto
  obtain a b where ab: "fmt02d ?m = [a, b]" "is_digit a" "is_digit b"
    using fmt02d_pair [OF m(1,2)] by blast
  obtain c d where cd: "fmt02d ?c = [c, d]" "is_digit c" "is_digit d"
    using fmt02d_pair [OF m(3,4)] by blast
  {
    assume "s < 3600"
    then have "s div 3600 = 0" using assms by simp
    then have "format_timestamp s = [a, b, CHR '':'', c, d]"
      using ab cd by (simp add: format_timestamp_def Let_def)
    then show "\<exists>a b c d. format_timestamp s = [a, b, CHR '':'', c, d] \<and>
                       list_all is_digit [a, b, c, d]"
      using ab cd by auto
  }
  {
    assume big: "3600 \<le> s"
    then have h: "0 < s div 3600" by (simp add: pos_imp_zdiv_pos_iff)
    then have f: "format_timestamp s = fmt02d (s div 3600) @ [CHR '':'', a, b, CHR '':'', c, d]"
      using ab cd by (simp add: format_timestamp_def Let_def)
    have l: "2 \<le> length (fmt02d (s div 3600))" using h by (intro length_fmt02d_ge) simp
    have d: "list_all is_digit (fmt02d (s div 3600))"
      using h fmt02d_digits [of "s div 3600"] by simp
    have e: "s < 360000 \<longrightarrow> length (fmt02d (s div 3600)) = 2"
    proof
      assume "s < 360000"
      then have "s div 3600 < 100" by simp
      then show "length (fmt02d (s div 3600)) = 2" using h by (intro length_fmt02d_small) simp_all
    qed
    show "\<exists>h a b c d. format_timestamp s = h @ [CHR '':'', a, b, CHR '':'', c, d] \<and>
                       2 \<le> length h \<and> (s < 360000 \<longrightarrow> length h = 2) \<and>
                       list_all is_digit (h @ [a, b, c, d])"
      using f l d e ab cd by auto
  }
qed

theorem format_then_parse_witness:
  "(0::int) \<le> 3725 \<and> 3600 \<le> (3725::int) \<and> (3725::int) < 360000 \<and>
   parse_timestamp (format_timestamp 3725) = Some 3725"
  using format_then_parse [of 3725] by simp

text \<open>
  Claim C7, as stated: formatting the parsed value of a valid two- or three-group
  timestamp gives the string back. It fails at \<open>1:30\<close>, which parses to 90 and is
  written back as \<open>01:30\<close>.
\<close>

theorem parse_then_format_counterexample:
  "parse_timestamp ''1:30'' = Some 90 \<and> format_timestamp 90 \<noteq> ''1:30''"
  by code_simp

text \<open>
  Claim C7, amended: for every timestamp in the formatter's own shape (two-digit
  zero-padded minute and second fields below sixty, and, when present, a non-zero hour
  field padded to two digits), the string parses and formatting the parsed value gives the
  string back; \<open>1:2:3:4\<close> and \<open>ab:cd\<close> do not parse.
\<close>

theorem parse_then_format_canonical:
  "(canonical_timestamp s \<longrightarrow>
      (\<exists>n. parse_timestamp s = Some n \<and> format_timestamp n = s)) \<and>
   parse_timestamp ''1:2:3:4'' = None \<and> parse_timestamp ''ab:cd'' = None"
proof (intro conjI impI)
  assume "canonical_timestamp s"
  then show "\<exists>n. parse_timestamp s = Some n \<and> format_timestamp n = s"
    by (rule canonical_roundtrip)
next
  show "parse_timestamp ''1:2:3:4'' = None" by code_simp
next
  show "parse_timestamp ''ab:cd'' = None" by code_simp
qed

theorem parse_then_format_canonical_witness:
  "canonical_timestamp ''01:02:05'' \<and>
   (\<exists>n. parse_timestamp ''01:02:05'' = Some n \<and> format_timestamp n = ''01:02:05'')"
proof -
  have c: "canonical_timestamp ''01:02:05''" by code_simp
  then show ?thesis using parse_then_format_canonical [of "''01:02:05''"] by blast
qed

section \<open>Chapters from provider metadata: lemmas\<close>


lemma metadata_loop_backfill:
  "0 < i \<Longrightarrow> metadata_loop i rest (xs @ [a]) = Inr (xs @ backfill a i rest)"
proof (induction rest arbitrary: xs a i)
  case Nil
  show ?case by simp
next
  case (Cons c rest)
  let ?a' = "if end_time a = None then a\<lparr>end_time := Some (start_of c)\<rparr> else a"
  have "metadata_loop i (c # rest) (xs @ [a])
        = metadata_loop (Suc i) rest ((xs @ [?a']) @ [new_chapter i c])"
    using Cons.prems by (simp add: set_last_end_def)
  also have "\<dots> = Inr ((xs @ [?a']) @ backfill (new_chapter i c) (Suc i) rest)"
    by (rule Cons.IH) simp
  finally show ?case by simp
qed

lemma metadata_loop_start:
  "metadata_loop 0 (c # rest) [] = Inr (backfill (new_chapter 0 c) 1 rest)"
  using metadata_loop_backfill [of 1 rest "[]" "new_chapter 0 c"] by simp

lemma length_backfill: "length (backfill a i rest) = Suc (length rest)"
  by (induction rest arbitrary: a i) auto

lemma backfill_nth:
  "k \<le> length rest \<Longrightarrow>
   backfill a i rest ! k =
     (loop_item a i rest k)\<lparr>end_time :=
        (case end_time (loop_item a i rest k) of
           Some e \<Rightarrow> Some e
         | None \<Rightarrow> if k < length rest then Some (start_of (rest ! k)) else None)\<rparr>"
proof (induction rest arbitrary: a i k)
  case Nil
  then show ?case by (simp add: loop_item_def split: option.splits)
next
  case (Cons c rest)
  show ?case
  proof (cases k)
    case 0
    then show ?thesis by (simp add: loop_item_def split: option.splits)
  next
    case (Suc j)
    with Cons.prems have j: "j \<le> length rest" by simp
    have it: "loop_item a i (c # rest) (Suc j) = loop_item (new_chapter i c) (Suc i) rest j"
      by (cases j) (simp_all add: loop_item_def)
    show ?thesis unfolding Suc using Cons.IH [OF j, of "new_chapter i c" "Suc i"] it
      by (simp cong: option.case_cong)
  qed
qed


lemma metadata_chapters_length:
  "length (extract_chapters_from_metadata (Inr \<lparr>info_chapters = Some raw, info_description = d\<rparr>))
   = length raw"
proof (cases raw)
  case Nil
  then show ?thesis by (simp add: extract_chapters_from_metadata_def)
next
  case (Cons c rest)
  then show ?thesis
    by (simp only: extract_chapters_from_metadata_def metadata_loop_start length_backfill
        sum.case video_info.simps option.case list.size)
qed

lemma metadata_chapters_nth:
  assumes "k < length raw"
  shows "extract_chapters_from_metadata (Inr \<lparr>info_chapters = Some raw, info_description = d\<rparr>) ! k =
     (new_chapter k (raw ! k))\<lparr>end_time :=
        (case end_of (raw ! k) of
           Some e \<Rightarrow> Some e
         | None \<Rightarrow> if Suc k < length raw then Some (start_of (raw ! Suc k)) else None)\<rparr>"
proof (cases raw)
  case Nil
  with assms show ?thesis by simp
next
  case (Cons c rest)
  have k: "k \<le> length rest" using assms Cons by simp
  have it: "loop_item (new_chapter 0 c) 1 rest k = new_chapter k (raw ! k)"
    using Cons by (cases k) (simp_all add: loop_item_def)
  have nx: "k < length rest \<Longrightarrow> rest ! k = raw ! Suc k" using Cons by simp
  have e: "end_time (new_chapter k (raw ! k)) = end_of (raw ! k)" by (simp add: new_chapter_def)
  have "extract_chapters_from_metadata (Inr \<lparr>info_chapters = Some raw, info_description = d\<rparr>)
        = backfill (new_chapter 0 c) 1 rest"
    using Cons by (simp add: extract_chapters_from_metadata_def metadata_loop_start del: metadata_loop.simps)
  then show ?thesis
    using backfill_nth [OF k, of "new_chapter 0 c" 1] it nx e Cons
    by (auto split: option.splits)
qed


lemma metadata_loop_cong:
  "list_all2 same_reading r1 r2 \<Longrightarrow> metadata_loop i r1 acc = metadata_loop i r2 acc"
proof (induction r1 r2 arbitrary: i acc rule: list_all2_induct)
  case Nil
  show ?case by simp
next
  case (Cons a r1 b r2)
  from Cons.hyps(1) have "\<And>j. new_chapter j a = new_chapter j b" "start_of a = start_of b"
    by (simp_all add: same_reading_def new_chapter_def)
  then show ?case using Cons.IH by (simp add: Let_def)
qed

lemma zero_end_same_reading:
  "same_reading (c\<lparr>rc_end_time := Some 0\<rparr>) (c\<lparr>rc_end_time := None\<rparr>)"
  by (simp add: same_reading_def start_of_def end_of_def)

lemma same_reading_refl: "list_all2 same_reading xs xs"
  by (simp add: list_all2_refl same_reading_def)

lemma with_chapters_length:
  "length (extract_chapters_from_metadata (with_chapters raw)) = length raw"
  unfolding with_chapters_def by (rule metadata_chapters_length)

lemma with_chapters_nth:
  "k < length raw \<Longrightarrow>
   extract_chapters_from_metadata (with_chapters raw) ! k =
     (new_chapter k (raw ! k))\<lparr>end_time :=
        (case end_of (raw ! k) of
           Some e \<Rightarrow> Some e
         | None \<Rightarrow> if Suc k < length raw then Some (start_of (raw ! Suc k)) else None)\<rparr>"
  unfolding with_chapters_def by (rule metadata_chapters_nth)

lemma with_chapters_start:
  "k < length raw \<Longrightarrow>
   start_time (extract_chapters_from_metadata (with_chapters raw) ! k) = start_of (raw ! k)"
  by (simp add: with_chapters_nth new_chapter_def)

lemma with_chapters_end:
  "k < length raw \<Longrightarrow>
   end_time (extract_chapters_from_metadata (with_chapters raw) ! k) =
     (case end_of (raw ! k) of
        Some e \<Rightarrow> Some e
      | None \<Rightarrow> if Suc k < length raw then Some (start_of (raw ! Suc k)) else None)"
  by (simp add: with_chapters_nth)

lemma with_chapters_title:
  "k < length raw \<Longrightarrow>
   title (extract_chapters_from_metadata (with_chapters raw) ! k) =
     (case rc_title (raw ! k) of None \<Rightarrow> ''Chapter '' @ digits_of (k + 1) | Some t \<Rightarrow> t)"
  by (simp add: with_chapters_nth new_chapter_def)

lemma end_of_absent: "rc_end_time c = None \<Longrightarrow> end_of c = None"
  by (simp add: end_of_def)


section \<open>Chapters from provider metadata: the claims\<close>

text \<open>
  Claim C4. In the metadata strategy a chapter whose record has no \<open>end_time\<close> gets the
  start of the following chapter as its end, the last chapter keeps no end when its record
  has none, and a record without a title is named \<open>Chapter N\<close>, counting from one. The
  specification's example (A at 0, B at 30, C from 90 to 120) gives the ends 30, 90, 120.
\<close>

theorem metadata_backfill:
  "(let cs = extract_chapters_from_metadata (with_chapters raw) in
      length cs = length raw \<and>
      (\<forall>k. Suc k < length raw \<and> rc_end_time (raw ! k) = None \<longrightarrow>
           end_time (cs ! k) = Some (start_of (raw ! Suc k)) \<and>
           end_time (cs ! k) = Some (start_time (cs ! Suc k))) \<and>
      (raw \<noteq> [] \<and> rc_end_time (last raw) = None \<longrightarrow> end_time (last cs) = None) \<and>
      (\<forall>k. k < length raw \<and> rc_title (raw ! k) = None \<longrightarrow>
           title (cs ! k) = ''Chapter '' @ digits_of (k + 1))) \<and>
   map end_time (extract_chapters_from_metadata (with_chapters example_chapters))
     = [Some 30, Some 90, Some 120]"
proof -
  let ?cs = "extract_chapters_from_metadata (with_chapters raw)"
  have len: "length ?cs = length raw" by (rule with_chapters_length)
  have fill: "end_time (?cs ! k) = Some (start_of (raw ! Suc k)) \<and>
              end_time (?cs ! k) = Some (start_time (?cs ! Suc k))"
    if "Suc k < length raw \<and> rc_end_time (raw ! k) = None" for k
  proof -
    from that have k: "k < length raw" and sk: "Suc k < length raw" by simp_all
    from that have "end_of (raw ! k) = None" by (simp add: end_of_absent)
    then have "end_time (?cs ! k) = Some (start_of (raw ! Suc k))"
      using sk by (simp add: with_chapters_end [OF k])
    then show ?thesis by (simp add: with_chapters_start [OF sk])
  qed
  have lastc: "end_time (last ?cs) = None" if "raw \<noteq> [] \<and> rc_end_time (last raw) = None"
  proof -
    from that have ne: "raw \<noteq> []" and e: "end_of (last raw) = None"
      by (simp_all add: end_of_absent)
    let ?k = "length raw - 1"
    have k: "?k < length raw" using ne by simp
    have "?cs \<noteq> []" using len ne by auto
    then have "last ?cs = ?cs ! ?k" using len by (simp add: last_conv_nth)
    moreover have "last raw = raw ! ?k" using ne by (simp add: last_conv_nth)
    ultimately show ?thesis using e with_chapters_end [OF k] by simp
  qed
  have ttl: "title (?cs ! k) = ''Chapter '' @ digits_of (k + 1)"
    if "k < length raw \<and> rc_title (raw ! k) = None" for k
    using that by (simp add: with_chapters_title)
  have ex: "map end_time (extract_chapters_from_metadata (with_chapters example_chapters))
     = [Some 30, Some 90, Some 120]"
    by (simp add: example_chapters_def with_chapters_def extract_chapters_from_metadata_def
        set_last_end_def new_chapter_def start_of_def end_of_def py_int_of_float_def)
  show ?thesis unfolding Let_def using len fill lastc ttl ex by blast
qed

theorem metadata_backfill_witness:
  "Suc 0 < length example_chapters \<and> rc_end_time (example_chapters ! 0) = None \<and>
   rc_title (example_chapters ! 0) \<noteq> None \<and>
   end_time (extract_chapters_from_metadata (with_chapters example_chapters) ! 0) = Some 30"
proof -
  have a: "Suc 0 < length example_chapters \<and> rc_end_time (example_chapters ! 0) = None"
    by (simp add: example_chapters_def)
  have s: "start_of (example_chapters ! Suc 0) = 30"
    by (simp add: example_chapters_def start_of_def py_int_of_float_def)
  have t: "rc_title (example_chapters ! 0) \<noteq> None" by (simp add: example_chapters_def)
  from metadata_backfill [of example_chapters] a s t show ?thesis
    unfolding Let_def by metis
qed

text \<open>
  Claim C10. A record whose \<open>end_time\<close> is present and equal to 0 is read exactly as a
  record without \<open>end_time\<close>: the result is the same list, the chapter's end becomes the
  start of the next chapter when there is one, and stays absent when it is the last.
\<close>

theorem zero_end_time_is_absent:
  "extract_chapters_from_metadata (with_chapters (xs @ c\<lparr>rc_end_time := Some 0\<rparr> # ys))
     = extract_chapters_from_metadata (with_chapters (xs @ c\<lparr>rc_end_time := None\<rparr> # ys)) \<and>
   end_time (extract_chapters_from_metadata
               (with_chapters (xs @ c\<lparr>rc_end_time := Some 0\<rparr> # n # ys)) ! length xs)
     = Some (start_of n) \<and>
   end_time (last (extract_chapters_from_metadata
               (with_chapters (xs @ [c\<lparr>rc_end_time := Some 0\<rparr>])))) = None"
proof (intro conjI)
  have "list_all2 same_reading (xs @ c\<lparr>rc_end_time := Some 0\<rparr> # ys)
                               (xs @ c\<lparr>rc_end_time := None\<rparr> # ys)"
    by (intro list_all2_appendI list_all2_Cons [THEN iffD2] conjI same_reading_refl
        zero_end_same_reading)
  then show "extract_chapters_from_metadata (with_chapters (xs @ c\<lparr>rc_end_time := Some 0\<rparr> # ys))
     = extract_chapters_from_metadata (with_chapters (xs @ c\<lparr>rc_end_time := None\<rparr> # ys))"
    by (simp add: extract_chapters_from_metadata_def with_chapters_def metadata_loop_cong
        del: metadata_loop.simps)
next
  let ?raw = "xs @ c\<lparr>rc_end_time := Some 0\<rparr> # n # ys"
  have k: "length xs < length ?raw" by simp
  show "end_time (extract_chapters_from_metadata (with_chapters ?raw) ! length xs)
        = Some (start_of n)"
    by (simp add: with_chapters_end [OF k] end_of_def nth_append)
next
  let ?raw = "xs @ [c\<lparr>rc_end_time := Some 0\<rparr>]"
  let ?cs = "extract_chapters_from_metadata (with_chapters ?raw)"
  have len: "length ?cs = Suc (length xs)" by (simp add: with_chapters_length)
  then have "?cs \<noteq> []" by auto
  then have "last ?cs = ?cs ! length xs" using len by (simp add: last_conv_nth)
  moreover have k: "length xs < length ?raw" by simp
  ultimately show "end_time (last ?cs) = None"
    by (simp add: with_chapters_end [OF k] end_of_def nth_append)
qed


section \<open>Chapters from the description: lemmas\<close>


lemma chain_nonempty: "ks \<noteq> [] \<Longrightarrow> chain ks \<noteq> []"
  by (induction ks rule: chain.induct) auto

lemma chain_last_open: "ks \<noteq> [] \<Longrightarrow> end_time (last (chain ks)) = None"
  by (induction ks rule: chain.induct) (auto simp: chain_nonempty)

lemma length_chain: "length (chain ks) = length ks"
  by (induction ks rule: chain.induct) auto

lemma chain_snoc:
  "chain (ks @ [(t, s, ts)]) =
     (if ks = [] then [] else set_last_end s (chain ks))
     @ [\<lparr>title = t, start_time = s, end_time = None, timestamp = ts\<rparr>]"
proof (induction ks rule: chain.induct)
  case 1
  show ?case by simp
next
  case (2 t' s' ts')
  show ?case by (simp add: set_last_end_def)
next
  case (3 t1 s1 ts1 t2 s2 ts2 ks)
  have ne: "chain ((t2, s2, ts2) # ks) \<noteq> []" by (rule chain_nonempty) simp
  show ?case using 3 ne by (simp add: set_last_end_def butlast_append)
qed

lemma chapter_step_chain:
  "chapter_step lib (chain ks) m =
     (case kept_match lib m of None \<Rightarrow> chain ks | Some k \<Rightarrow> chain (ks @ [k]))"
proof (cases "kept_match lib m")
  case None
  then show ?thesis by (simp add: chapter_step_def)
next
  case (Some k)
  obtain t s ts where k: "k = (t, s, ts)" by (cases k) auto
  show ?thesis
  proof (cases "ks = []")
    case True
    then show ?thesis using Some k by (simp add: chapter_step_def)
  next
    case False
    then show ?thesis using Some k chain_nonempty [OF False] chain_last_open [OF False]
      by (simp add: chapter_step_def chain_snoc)
  qed
qed

lemma foldl_chapter_step_chain:
  "foldl (chapter_step lib) (chain ks) ms = chain (ks @ List.map_filter (kept_match lib) ms)"
proof (induction ms arbitrary: ks)
  case Nil
  show ?case by (simp add: List.map_filter_simps)
next
  case (Cons m ms)
  show ?case
  proof (cases "kept_match lib m")
    case None
    then show ?thesis using Cons [of ks] by (simp add: chapter_step_chain List.map_filter_simps)
  next
    case (Some k)
    then show ?thesis using Cons [of "ks @ [k]"]
      by (simp add: chapter_step_chain List.map_filter_simps)
  qed
qed

lemma foldl_chapter_step_start:
  "foldl (chapter_step lib) [] (findall lib k text) = chapters_of_pattern lib k text"
  using foldl_chapter_step_chain [of lib "[]"] by (simp add: chapters_of_pattern_def)

lemma chapters_of_pattern_no_match:
  "findall lib k text = [] \<Longrightarrow> chapters_of_pattern lib k text = []"
  by (simp add: chapters_of_pattern_def List.map_filter_simps)

lemma patterns_loop_find:
  "patterns_loop lib ps text [] =
     (case find (\<lambda>k. chapters_of_pattern lib k text \<noteq> []) ps of
        None \<Rightarrow> []
      | Some k \<Rightarrow> chapters_of_pattern lib k text)"
proof (induction ps)
  case Nil
  show ?case by simp
next
  case (Cons p ps)
  show ?case
  proof (cases "findall lib p text = []")
    case True
    then show ?thesis using Cons by (simp add: chapters_of_pattern_no_match)
  next
    case False
    show ?thesis
    proof (cases "chapters_of_pattern lib p text = []")
      case True
      then show ?thesis using Cons False by (simp add: Let_def foldl_chapter_step_start)
    next
      case ne: False
      then show ?thesis using False by (simp add: Let_def foldl_chapter_step_start)
    qed
  qed
qed

lemma chain_fields:
  "map (\<lambda>c. (title c, start_time c, timestamp c)) (chain ks) = ks"
  by (induction ks rule: chain.induct) auto

lemma chain_end_next:
  "Suc i < length ks \<Longrightarrow> end_time (chain ks ! i) = Some (start_time (chain ks ! Suc i))"
proof (induction ks arbitrary: i rule: chain.induct)
  case 1
  then show ?case by simp
next
  case (2 t s ts)
  then show ?case by simp
next
  case (3 t s ts t' s' ts' ks)
  show ?case
  proof (cases i)
    case 0
    then show ?thesis by (cases ks) auto
  next
    case (Suc j)
    then show ?thesis using 3 by simp
  qed
qed

lemma parse_chapters_find:
  "parse_chapters_from_text_with lib text =
     (case find (\<lambda>k. chapters_of_pattern lib k text \<noteq> []) pattern_positions of
        None \<Rightarrow> []
      | Some k \<Rightarrow> chapters_of_pattern lib k text)"
  unfolding parse_chapters_from_text_with_def by (rule patterns_loop_find)

lemma parse_chapters_is_chain:
  "parse_chapters_from_text_with lib text =
     chain (case find (\<lambda>k. chapters_of_pattern lib k text \<noteq> []) pattern_positions of
              None \<Rightarrow> []
            | Some k \<Rightarrow> List.map_filter (kept_match lib) (findall lib k text))"
  by (simp add: parse_chapters_find chapters_of_pattern_def split: option.splits)


lemma metadata_starts:
  "map start_time (extract_chapters_from_metadata (with_chapters raw)) = map start_of raw"
  by (rule nth_equalityI) (simp_all add: with_chapters_length with_chapters_start)

lemma metadata_end_present:
  "Suc i < length raw \<Longrightarrow>
   end_time (extract_chapters_from_metadata (with_chapters raw) ! i) \<noteq> None"
  by (simp add: with_chapters_end split: option.splits)

lemma metadata_end_next:
  "Suc i < length raw \<Longrightarrow> end_of (raw ! i) = None \<Longrightarrow>
   end_time (extract_chapters_from_metadata (with_chapters raw) ! i)
     = Some (start_time (extract_chapters_from_metadata (with_chapters raw) ! Suc i))"
  by (simp add: with_chapters_end with_chapters_start)



lemma latin1_lib_fields:
  "int_of latin1_lib = py_int_of_str"
  "split_colon latin1_lib = split_on CHR '':''"
  "strip latin1_lib = py_strip"
  by (simp_all add: latin1_lib_def)

lemma parse_timestamp_latin1: "parse_timestamp_with latin1_lib = parse_timestamp"
  by (rule ext) (simp only: parse_timestamp_with_def parse_timestamp_def latin1_lib_fields)

section \<open>The reflow engine: lemmas\<close>

lemma closes_at_next:
  "closes_at lib ((current @ [word]) @ rest) (Suc (length current)) \<longleftrightarrow>
     (15 \<le> Suc (length current) \<and> rest \<noteq> [] \<and> isupper lib (fst (hd rest)))
     \<or> 20 \<le> Suc (length current)"
proof (cases rest)
  case Nil
  then show ?thesis by (simp add: closes_at_def)
next
  case (Cons r rs)
  have "((current @ [word]) @ r # rs) ! Suc (length current) = r"
    by (simp add: nth_append)
  then show ?thesis using Cons by (simp add: closes_at_def)
qed

lemma resegment_loop_Cons:
  "resegment_loop lib (word # rest) current sentences =
     (if closes_at lib ((current @ [word]) @ rest) (Suc (length current))
      then resegment_loop lib rest []
             (sentences @ [py_join (lit lib '' '') (map word_text (current @ [word]))])
      else resegment_loop lib rest (current @ [word]) sentences)"
  unfolding closes_at_next by (simp add: Let_def)

lemma find_first_close:
  assumes "m < n" and "P (Suc m)" and "\<And>k. 1 \<le> k \<Longrightarrow> k \<le> m \<Longrightarrow> \<not> P k"
  shows "find P (map Suc [0 ..< n]) = Some (Suc m)"
  unfolding find_Some_iff
proof (intro exI [of _ m] conjI allI impI)
  show "m < length (map Suc [0 ..< n])" using assms(1) by simp
  show "P (map Suc [0 ..< n] ! m)" using assms(1,2) by simp
  show "Suc m = map Suc [0 ..< n] ! m" using assms(1) by simp
next
  fix j assume "j < m"
  then have "map Suc [0 ..< n] ! j = Suc j" using assms(1) by simp
  then show "\<not> P (map Suc [0 ..< n] ! j)" using assms(3) [of "Suc j"] \<open>j < m\<close> by simp
qed

lemma find_no_close:
  assumes "\<And>k. 1 \<le> k \<Longrightarrow> k \<le> n \<Longrightarrow> \<not> P k"
  shows "find P (map Suc [0 ..< n]) = None"
  unfolding find_None_iff using assms by auto

lemma resegment_loop_spec:
  assumes "\<And>k. 1 \<le> k \<Longrightarrow> k \<le> length current \<Longrightarrow> \<not> closes_at lib (current @ rest) k"
  shows "resegment_loop lib rest current sentences
           = sentences @ spec_resegment lib (current @ rest)"
  using assms
proof (induction rest arbitrary: current sentences)
  case Nil
  show ?case
  proof (cases "current = []")
    case True
    then show ?thesis by (simp add: spec_resegment.simps)
  next
    case False
    have "find (closes_at lib current) (map Suc [0 ..< length current]) = None"
      using Nil by (intro find_no_close) simp
    then show ?thesis using False by (simp add: spec_resegment.simps [of lib current])
  qed
next
  case (Cons word rest)
  let ?words = "current @ word # rest"
  have w: "(current @ [word]) @ rest = ?words" by simp
  show ?case
  proof (cases "closes_at lib ?words (Suc (length current))")
    case True
    have f: "find (closes_at lib ?words) (map Suc [0 ..< length ?words])
               = Some (Suc (length current))"
      using True Cons.prems by (intro find_first_close) simp_all
    have "resegment_loop lib (word # rest) current sentences
            = resegment_loop lib rest []
                (sentences @ [py_join (lit lib '' '') (map word_text (current @ [word]))])"
      using True by (simp only: resegment_loop_Cons w if_True)
    also have "\<dots> = (sentences @ [py_join (lit lib '' '') (map word_text (current @ [word]))])
                       @ spec_resegment lib ([] @ rest)"
      by (rule Cons.IH) simp
    also have "\<dots> = sentences @ spec_resegment lib ?words"
      using f by (simp add: spec_resegment.simps [of lib ?words])
    finally show ?thesis .
  next
    case False
    have "resegment_loop lib (word # rest) current sentences
            = resegment_loop lib rest (current @ [word]) sentences"
      using False by (simp only: resegment_loop_Cons w if_False)
    also have "\<dots> = sentences @ spec_resegment lib ((current @ [word]) @ rest)"
    proof (rule Cons.IH)
      fix k assume k: "1 \<le> k" "k \<le> length (current @ [word])"
      show "\<not> closes_at lib ((current @ [word]) @ rest) k"
      proof (cases "k \<le> length current")
        case True
        then show ?thesis using Cons.prems [OF k(1)] by simp
      next
        case False
        then have "k = Suc (length current)" using k(2) by simp
        then show ?thesis using \<open>\<not> closes_at lib ?words (Suc (length current))\<close> by simp
      qed
    qed
    finally show ?thesis by simp
  qed
qed

lemma resegment_is_spec:
  "resegment_loop lib words [] [] = spec_resegment lib words"
  using resegment_loop_spec [of "[]" lib words "[]"] by simp









section \<open>The extractor and the handlers on concrete requests\<close>

lemma random_text_unresolved: "extract_video_id_with stdlib ''random text'' = None"
  by code_simp

text \<open>
  Claim C1. A request whose URL the extractor cannot resolve is to fail with status 400 and
  without any provider call. On the URL \<open>random text\<close> the extractor answers null and no
  provider is called, in the web handler and on the command line; but the web handler
  raises its 400 inside its own \<open>try\<close> block, whose \<open>except Exception\<close> catches it, and the
  API answers with status 500.
\<close>

theorem unresolved_url_answers_500:
  "extract_video_id_with stdlib ''random text'' = None \<and>
   get_transcript_body stdlib svc ''random text''
     = (Inl (HTTPException 400 ''Invalid YouTube URL''), []) \<and>
   get_transcript stdlib svc ''random text''
     = (Inl (HTTPException 500 ''400: Invalid YouTube URL''), []) \<and>
   http_status (fst (get_transcript stdlib svc ''random text'')) = 500 \<and>
   process_url stdlib cli ''random text'' include_metadata
     = (ReturnFalse ''Error: Could not extract video ID from URL: random text'', [])"
proof -
  have d: "digits_of 400 = ''400''" by code_simp
  show ?thesis
    by (simp add: get_transcript_def get_transcript_body_def process_url_def
        random_text_unresolved d)
qed

text \<open>
  Claim C2. The extractor is to return the embedded 11-character identifier or null. The
  validator's pattern ends in \<open>$\<close>, which also matches before a final line feed, so a
  \<open>v\<close> parameter that decodes to eleven identifier characters and a line feed passes: the
  extractor returns a string of twelve characters that is not an identifier.
\<close>

theorem extract_returns_twelve_characters:
  "extract_video_id ''youtube.com/watch?a=1&v=dQw4w9WgXcQ%0A''
     = Some (''dQw4w9WgXcQ'' @ [CHR 0x0A]) \<and>
   length (''dQw4w9WgXcQ'' @ [CHR 0x0A]) = 12 \<and>
   \<not> list_all is_id_char (''dQw4w9WgXcQ'' @ [CHR 0x0A])"
  by code_simp


section \<open>Chapters from the description: the claims\<close>

lemma example_description_chapters:
  "parse_chapters_from_text example_description =
     [\<lparr>title = ''Intro'', start_time = 0, end_time = Some 90, timestamp = ''0:00''\<rparr>,
      \<lparr>title = ''Setup'', start_time = 90, end_time = None, timestamp = ''1:30''\<rparr>]"
  by code_simp

text \<open>A no-break space after the timestamp is whitespace: the second pattern matches.\<close>

lemma no_break_space_description_chapters:
  "parse_chapters_from_text (''0:00'' @ [CHR 0xA0] @ ''Intro'') =
     [\<lparr>title = ''Intro'', start_time = 0, end_time = None, timestamp = ''0:00''\<rparr>]"
  by code_simp




text \<open>
  Claim C6, as stated: chapters come in non-decreasing start order and every chapter but
  the last ends where the next starts. A description whose timestamps go backwards gives
  the starts 300, 0; provider chapters A from 0 to 25 and B at 30 keep the end 25.
\<close>

theorem chapter_order_counterexample:
  "map start_time (parse_chapters_from_text backwards_description) = [300, 0] \<and>
   \<not> sorted (map start_time (parse_chapters_from_text backwards_description)) \<and>
   map end_time (extract_chapters_from_metadata (with_chapters gap_chapters)) = [Some 25, None] \<and>
   map start_time (extract_chapters_from_metadata (with_chapters gap_chapters)) = [0, 30]"
proof -
  have a: "map start_time (parse_chapters_from_text backwards_description) = [300, 0]"
    by code_simp
  have b: "extract_chapters_from_metadata (with_chapters gap_chapters) =
      [\<lparr>title = ''A'', start_time = 0, end_time = Some 25, timestamp = format_timestamp 0\<rparr>,
       \<lparr>title = ''B'', start_time = 30, end_time = None, timestamp = format_timestamp 30\<rparr>]"
    by (simp add: gap_chapters_def with_chapters_def extract_chapters_from_metadata_def
        set_last_end_def new_chapter_def start_of_def end_of_def py_int_of_float_def)
  show ?thesis using a by (simp add: b)
qed

text \<open>
  Claim C6, amended: the chapters keep the order of their input and are not sorted: in the
  description strategy they are the kept matches of the chosen pattern in the order of the
  matches, in the metadata strategy the provider's records in their order. In the
  description strategy every chapter but the last ends where the next starts, and the
  last has no end. In the metadata strategy every chapter but the last has an end, which
  is the next chapter's start whenever the provider gave none for it. Only the last
  chapter may have no end.
\<close>

theorem chapter_ends_follow_next_start:
  "(\<forall>i. Suc i < length (parse_chapters_from_text_with lib text) \<longrightarrow>
        end_time (parse_chapters_from_text_with lib text ! i)
          = Some (start_time (parse_chapters_from_text_with lib text ! Suc i))) \<and>
   (parse_chapters_from_text_with lib text \<noteq> [] \<longrightarrow>
        end_time (last (parse_chapters_from_text_with lib text)) = None) \<and>
   map (\<lambda>c. (title c, start_time c, timestamp c)) (parse_chapters_from_text_with lib text)
     = (case find (\<lambda>k. chapters_of_pattern lib k text \<noteq> []) pattern_positions of
          None \<Rightarrow> []
        | Some k \<Rightarrow> List.map_filter (kept_match lib) (findall lib k text)) \<and>
   (\<forall>i. Suc i < length raw \<longrightarrow>
        end_time (extract_chapters_from_metadata (with_chapters raw) ! i) \<noteq> None \<and>
        (end_of (raw ! i) = None \<longrightarrow>
           end_time (extract_chapters_from_metadata (with_chapters raw) ! i)
             = Some (start_time (extract_chapters_from_metadata (with_chapters raw) ! Suc i)))) \<and>
   length (extract_chapters_from_metadata (with_chapters raw)) = length raw \<and>
   map start_time (extract_chapters_from_metadata (with_chapters raw)) = map start_of raw"
proof -
  define ks where "ks =
    (case find (\<lambda>k. chapters_of_pattern lib k text \<noteq> []) pattern_positions of
       None \<Rightarrow> []
     | Some k \<Rightarrow> List.map_filter (kept_match lib) (findall lib k text))"
  have p: "parse_chapters_from_text_with lib text = chain ks"
    unfolding ks_def by (rule parse_chapters_is_chain)
  have "ks \<noteq> [] \<Longrightarrow> end_time (last (chain ks)) = None" by (rule chain_last_open)
  moreover have "chain ks \<noteq> [] \<Longrightarrow> ks \<noteq> []" by auto
  ultimately show ?thesis
    unfolding p ks_def [symmetric]
    by (simp add: length_chain chain_end_next chain_fields metadata_end_present
        metadata_end_next metadata_starts with_chapters_length)
qed

theorem chapter_ends_follow_next_start_witness:
  "Suc 0 < length (parse_chapters_from_text_with latin1_lib example_description) \<and>
   parse_chapters_from_text_with latin1_lib example_description \<noteq> [] \<and>
   Suc 0 < length example_chapters \<and> end_of (example_chapters ! 0) = None \<and>
   end_time (parse_chapters_from_text_with latin1_lib example_description ! 0)
     = Some (start_time (parse_chapters_from_text_with latin1_lib example_description ! Suc 0)) \<and>
   end_time (extract_chapters_from_metadata (with_chapters example_chapters) ! 0)
     = Some (start_time (extract_chapters_from_metadata (with_chapters example_chapters) ! Suc 0))"
proof -
  have a: "Suc 0 < length (parse_chapters_from_text_with latin1_lib example_description)"
    using example_description_chapters by (simp add: parse_chapters_from_text_def)
  have b: "Suc 0 < length example_chapters" "end_of (example_chapters ! 0) = None"
    by (simp_all add: example_chapters_def end_of_def)
  from chapter_ends_follow_next_start [of latin1_lib example_description example_chapters] a b
  show ?thesis by fastforce
qed

section \<open>The reflow engine: the claims\<close>




text \<open>
  Claim C9. When the text of the fragments splits into at most three sentences and is
  longer than 200 characters, the sentences the engine goes on with are those of the
  specification's re-segmentation of the words of the text: a candidate closes at the
  first count of words that has reached 15 with a following word starting in upper case,
  or has reached 20; the words left over form the last sentence.
\<close>

theorem resegment_by_word_count:
  assumes "segments \<noteq> []"
    and "all_text_loop lib segments [] = Inr all_text"
    and "length (split_sentences lib (full_text_of lib all_text)) \<le> 3"
    and "length (full_text_of lib all_text) > 200"
  shows "sentences_of lib (full_text_of lib all_text)
           = spec_resegment lib (split_words lib (full_text_of lib all_text)) \<and>
         format_transcript lib segments
           = Inr (py_join (lit lib [CHR 0x0A, CHR 0x0A])
               (List.map_filter (finish_paragraph lib)
                 (paragraph_loop lib
                   (spec_resegment lib (split_words lib (full_text_of lib all_text))) [] [])))"
proof -
  have s: "sentences_of lib (full_text_of lib all_text)
           = spec_resegment lib (split_words lib (full_text_of lib all_text))"
    using assms(3,4) by (simp add: sentences_of_def Let_def resegment_is_spec)
  show ?thesis
    using assms(1,2)
    by (simp add: s format_transcript_def formatted_paragraphs_def paragraphs_of_def)
qed

theorem resegment_by_word_count_witness:
  "unpunctuated_segments \<noteq> [] \<and>
   all_text_loop ascii_lib unpunctuated_segments [] = Inr [ascii unpunctuated_text] \<and>
   length (split_sentences ascii_lib (full_text_of ascii_lib [ascii unpunctuated_text])) \<le> 3 \<and>
   length (full_text_of ascii_lib [ascii unpunctuated_text]) > 200 \<and>
   map (map to_char) (sentences_of ascii_lib (full_text_of ascii_lib [ascii unpunctuated_text]))
     = [py_join '' '' (replicate 15 ''aaaaa''),
        py_join '' '' (''Bbbbb'' # replicate 19 ''ccccc''),
        ''ddddd'']"
proof -
  have a: "unpunctuated_segments \<noteq> []" by (simp add: unpunctuated_segments_def)
  have b: "all_text_loop ascii_lib unpunctuated_segments [] = Inr [ascii unpunctuated_text]"
    by code_simp
  have c: "length (split_sentences ascii_lib (full_text_of ascii_lib [ascii unpunctuated_text])) \<le> 3"
    by code_simp
  have d: "length (full_text_of ascii_lib [ascii unpunctuated_text]) > 200"
    by code_simp
  have e: "map (map to_char)
        (spec_resegment ascii_lib
           (split_words ascii_lib (full_text_of ascii_lib [ascii unpunctuated_text])))
     = [py_join '' '' (replicate 15 ''aaaaa''),
        py_join '' '' (''Bbbbb'' # replicate 19 ''ccccc''),
        ''ddddd'']"
    by code_simp
  from resegment_by_word_count [OF a b c d] e a b c d show ?thesis by simp
qed


end
